theory Spec2Isabelle
  imports Complex_Main "HOL-Library.Multiset"
begin

section \<open>JavaScript values used by the sources\<close>

text \<open>
  JavaScript numbers are modelled as exact rationals: the numbers the sources read are
  finite, and arithmetic on them is exact, with one exception.  A sum of two finite
  numbers whose exact value lies outside the range of a double is an infinity, and the
  layout analyzer tests its sums for that: these sums are made by \<open>jsAdd\<close>, whose result
  is a finite number or one of the two infinities.  Array indices, string offsets and
  page numbers are integers.  A JavaScript string is a \<open>string\<close> (a list of characters);
  case folding and white space are those of ASCII.
\<close>

type_synonym number = rat

datatype extended = Finite number | PosInfinity | NegInfinity

text \<open>
  The least magnitude that rounds to an infinity: \<open>Number.MAX_VALUE\<close> is
  \<open>2^1024 - 2^971\<close>, and a sum reaches an infinity from half a unit in the last place
  above it, which is \<open>2^1024 - 2^970\<close>, written out below.
\<close>

definition overflowBound :: number where
  "overflowBound =
     179769313486231580793728971405303415079934132710037826936173778980444968292764750946649017977587207096330286416692887910946555547851940402630657488671505820681908902000708383676273854845817711531764475730270069855571366959622842914819860834936475292719074168444365510704342711559699508093042880177904174497792"

definition jsAdd :: "number \<Rightarrow> number \<Rightarrow> extended" where
  "jsAdd a b =
     (if overflowBound \<le> a + b then PosInfinity
      else if a + b \<le> - overflowBound then NegInfinity
      else Finite (a + b))"

text \<open>The comparison \<open><\<close> of JavaScript on these values, and \<open>Number.isFinite\<close>.\<close>

fun jsLess :: "extended \<Rightarrow> extended \<Rightarrow> bool" where
  "jsLess (Finite a) (Finite b) = (a < b)"
| "jsLess (Finite a) PosInfinity = True"
| "jsLess (Finite a) NegInfinity = False"
| "jsLess PosInfinity b = False"
| "jsLess NegInfinity (Finite b) = True"
| "jsLess NegInfinity PosInfinity = True"
| "jsLess NegInfinity NegInfinity = False"

fun isFinite :: "extended \<Rightarrow> bool" where
  "isFinite (Finite a) = True"
| "isFinite PosInfinity = False"
| "isFinite NegInfinity = False"

text \<open>\<open>String.prototype.toLowerCase\<close>, on ASCII letters.\<close>

definition lowerChar :: "char \<Rightarrow> char" where
  "lowerChar c =
     (let n = (of_char c :: nat) in if 65 \<le> n \<and> n \<le> 90 then char_of (n + 32) else c)"

definition toLowerCase :: "string \<Rightarrow> string" where
  "toLowerCase s = map lowerChar s"

text \<open>\<open>String.prototype.startsWith\<close> and \<open>indexOf\<close> (\<open>-1\<close> when there is no occurrence).\<close>

fun startsWith :: "string \<Rightarrow> string \<Rightarrow> bool" where
  "startsWith s [] = True"
| "startsWith [] (q # qs) = False"
| "startsWith (c # cs) (q # qs) = (c = q \<and> startsWith cs qs)"

fun indexOfFrom :: "int \<Rightarrow> string \<Rightarrow> string \<Rightarrow> int" where
  "indexOfFrom i [] q = (if q = [] then i else - 1)"
| "indexOfFrom i (c # cs) q = (if startsWith (c # cs) q then i else indexOfFrom (i + 1) cs q)"

definition indexOf :: "string \<Rightarrow> string \<Rightarrow> int" where
  "indexOf s q = indexOfFrom 0 s q"

text \<open>
  \<open>Array.prototype.slice\<close> and \<open>String.prototype.slice\<close>: a negative bound counts from
  the end, both bounds are clamped to the length.
\<close>

definition sliceBound :: "int \<Rightarrow> int \<Rightarrow> nat" where
  "sliceBound n k = (if k < 0 then nat (max (n + k) 0) else nat (min k n))"

definition slice :: "'a list \<Rightarrow> int \<Rightarrow> int \<Rightarrow> 'a list" where
  "slice xs s e =
     (let n = int (length xs); a = sliceBound n s; b = sliceBound n e
      in take (b - a) (drop a xs))"

text \<open>\<open>String.prototype.split\<close> with a one-character separator.\<close>

fun split :: "char \<Rightarrow> string \<Rightarrow> string list" where
  "split sep [] = [[]]"
| "split sep (c # cs) =
     (if c = sep then [] # split sep cs
      else (case split sep cs of [] \<Rightarrow> [[c]] | w # ws \<Rightarrow> (c # w) # ws))"

text \<open>Reading an array at an index: \<open>None\<close> is JavaScript's \<open>undefined\<close>.\<close>

definition at_index :: "'a list \<Rightarrow> int \<Rightarrow> 'a option" where
  "at_index xs i = (if 0 \<le> i \<and> i < int (length xs) then Some (xs ! nat i) else None)"

definition newline :: char where
  "newline = CHR 0x0A"

section \<open>Region mapping: \<open>pickRegionIdsForText\<close>\<close>

text \<open>
  \<open>regionsByPage\<close> is the \<open>Map<number, string[]>\<close> of the source.  The result is an
  array of region identities; an entry \<open>None\<close> is \<open>undefined\<close>, which the source produces
  when it reads \<open>regionIds[startIndex]\<close> past the end of the array.
\<close>

definition pickRegionIdsForText ::
    "int \<Rightarrow> string \<Rightarrow> string \<Rightarrow> (int \<rightharpoonup> string list) \<Rightarrow> string option list" where
  "pickRegionIdsForText pageNumber text query regionsByPage =
     (let regionIds = (case regionsByPage pageNumber of None \<Rightarrow> [] | Some ids \<Rightarrow> ids) in
      if length regionIds = 0 then []
      else
        let queryLower = toLowerCase query;
            textLower = toLowerCase text;
            idx = indexOf textLower queryLower in
        if idx = - 1 then
          (let middleIndex = int (length regionIds) div 2 in [at_index regionIds middleIndex])
        else
          let before_idx = slice text 0 idx;
              lineIndex = int (length (split newline before_idx)) - 1 in
          if lineIndex < 0 then [at_index regionIds 0]
          else
            let windowLines = 1;
                startIndex0 = lineIndex - windowLines;
                endIndex0 = lineIndex + windowLines;
                startIndex = (if startIndex0 < 0 then 0 else startIndex0);
                endIndex1 = (if endIndex0 \<ge> int (length regionIds)
                             then int (length regionIds) - 1 else endIndex0);
                endIndex = (if endIndex1 < startIndex then startIndex else endIndex1);
                selected = slice regionIds startIndex (endIndex + 1) in
            if length selected > 0 then map Some selected
            else [at_index regionIds startIndex])"

section \<open>Line clustering shared by the text extractor and the layout analyzer\<close>

text \<open>
  What \<open>pdf.getPage(i)\<close> yields: the viewport at scale 1 and the text-content items.
  An item of pdf.js carries \<open>str\<close>, a six-entry \<open>transform\<close> and, usually, \<open>width\<close>
  and \<open>height\<close>; \<open>None\<close> stands for a field that is absent or of another type, which is
  what the guards of both sources test.
\<close>

type_synonym transform = "number \<times> number \<times> number \<times> number \<times> number \<times> number"

record RawItem =
  item_str :: "string option"
  item_transform :: "transform option"
  item_width :: "number option"
  item_height :: "number option"

record PdfPage =
  viewport_width :: number
  viewport_height :: number
  content_items :: "RawItem list"

text \<open>The objects both sources push onto \<open>items\<close>.\<close>

record TextToken =
  tk_text :: string
  tk_x :: number
  tk_y :: number

record LayoutToken = TextToken +
  tk_width :: number
  tk_height :: number

text \<open>
  \<open>Array.prototype.sort\<close> with a comparator is stable; for a comparator that is a
  consistent ordering its result is the one a stable insertion sort produces.
\<close>

fun insertBy :: "('a \<Rightarrow> 'a \<Rightarrow> number) \<Rightarrow> 'a \<Rightarrow> 'a list \<Rightarrow> 'a list" where
  "insertBy cmp a [] = [a]"
| "insertBy cmp a (b # bs) = (if cmp a b \<le> 0 then a # b # bs else b # insertBy cmp a bs)"

definition sortBy :: "('a \<Rightarrow> 'a \<Rightarrow> number) \<Rightarrow> 'a list \<Rightarrow> 'a list" where
  "sortBy cmp xs = foldr (insertBy cmp) xs []"

text \<open>\<open>String.prototype.trim\<close> (ASCII white space) and \<open>Array.prototype.join\<close>.\<close>

definition isWhiteSpace :: "char \<Rightarrow> bool" where
  "isWhiteSpace c = (c \<in> set [CHR 0x09, CHR 0x0A, CHR 0x0B, CHR 0x0C, CHR 0x0D, CHR 0x20])"

definition trim :: "string \<Rightarrow> string" where
  "trim s = rev (dropWhile isWhiteSpace (rev (dropWhile isWhiteSpace s)))"

fun join :: "string \<Rightarrow> string list \<Rightarrow> string" where
  "join sep [] = []"
| "join sep [s] = s"
| "join sep (s # t # ts) = s @ sep @ join sep (t # ts)"

section \<open>Text extractor: \<open>extractTextFromPdf\<close>\<close>

record PageTextExtractionResult =
  tp_pageNumber :: int
  tp_width :: number
  tp_height :: number
  tp_text :: string

fun te_items :: "RawItem list \<Rightarrow> TextToken list" where
  "te_items [] = []"
| "te_items (item # rest) =
     (case (item_str item, item_transform item) of
        (Some v, Some (a, b, c, d, e, f)) \<Rightarrow>
          (if length v = 0 then te_items rest
           else \<lparr>tk_text = v, tk_x = e, tk_y = f\<rparr> # te_items rest)
      | _ \<Rightarrow> te_items rest)"

definition te_compare :: "TextToken \<Rightarrow> TextToken \<Rightarrow> number" where
  "te_compare a b = (if tk_y a = tk_y b then tk_x a - tk_x b else tk_y b - tk_y a)"

text \<open>
  One iteration of the clustering loop.  The state is the array \<open>lines\<close> and \<open>currentY\<close>;
  \<open>currentLine\<close> is \<open>null\<close> exactly while \<open>lines\<close> is empty and is the last element of
  \<open>lines\<close> afterwards, so that pushing onto \<open>currentLine.items\<close> extends that element.
\<close>

definition te_lineStep ::
    "number \<Rightarrow> TextToken list list \<times> number \<Rightarrow> TextToken \<Rightarrow> TextToken list list \<times> number" where
  "te_lineStep lineThreshold st item =
     (let (lines, currentY) = st in
      if lines = [] then ([[item]], tk_y item)
      else
        let dy = \<bar>tk_y item - currentY\<bar> in
        if dy \<le> lineThreshold then
          (let currentLine = last lines @ [item] in
           (butlast lines @ [currentLine],
            (currentY * (of_nat (length currentLine) - 1) + tk_y item)
              / of_nat (length currentLine)))
        else (lines @ [[item]], tk_y item))"

definition te_lines :: "number \<Rightarrow> TextToken list \<Rightarrow> TextToken list list" where
  "te_lines lineThreshold items = fst (foldl (te_lineStep lineThreshold) ([], 0) items)"

fun te_segments :: "TextToken list list \<Rightarrow> string list" where
  "te_segments [] = []"
| "te_segments (line # rest) =
     (if length line = 0 then te_segments rest
      else
        let lineText = trim (concat (map tk_text line)) in
        if lineText = [] then te_segments rest else lineText # te_segments rest)"

definition te_pageSegments :: "PdfPage \<Rightarrow> string list" where
  "te_pageSegments page =
     (let height = (if viewport_height page = 0 then 1 else viewport_height page);
          items = sortBy te_compare (te_items (content_items page));
          lineThreshold = height * (12 / 1000)
      in te_segments (te_lines lineThreshold items))"

definition te_page :: "int \<Rightarrow> PdfPage \<Rightarrow> PageTextExtractionResult" where
  "te_page i page =
     \<lparr>tp_pageNumber = i, tp_width = viewport_width page, tp_height = viewport_height page,
      tp_text = join [newline] (te_pageSegments page)\<rparr>"

text \<open>
  Reading and parsing the file is input: \<open>Inl\<close> is the message of the exception that
  \<open>fs.readFile\<close> or pdf.js raised, \<open>Inr\<close> the pages in order.
\<close>

definition extractTextFromPdf ::
    "(string + PdfPage list) \<Rightarrow> string + PageTextExtractionResult list" where
  "extractTextFromPdf loaded =
     (case loaded of
        Inl err \<Rightarrow> Inl err
      | Inr pdf \<Rightarrow> Inr (map (\<lambda>(k, page). te_page (int k + 1) page) (enumerate 0 pdf)))"

section \<open>Layout analyzer: \<open>analyzePdfLayout\<close>\<close>

datatype RegionType = Figure | Table | Chart | Image | Other

record NormalizedBBox =
  bbox_x0 :: number
  bbox_y0 :: number
  bbox_x1 :: number
  bbox_y1 :: number

record VisualRegion =
  vr_id :: string
  vr_documentId :: string
  vr_pageNumber :: int
  vr_type :: RegionType
  vr_bbox :: NormalizedBBox

record LayoutPage =
  lp_pageNumber :: int
  lp_width :: number
  lp_height :: number
  lp_regions :: "VisualRegion list"

fun la_items :: "RawItem list \<Rightarrow> LayoutToken list" where
  "la_items [] = []"
| "la_items (item # rest) =
     (case (item_str item, item_transform item) of
        (Some v, Some (a, b, c, d, e, f)) \<Rightarrow>
          (if length v = 0 then la_items rest
           else
             \<lparr>tk_text = v, tk_x = e, tk_y = f,
              tk_width = (case item_width item of Some w \<Rightarrow> w | None \<Rightarrow> 0),
              tk_height = (case item_height item of Some h \<Rightarrow> h | None \<Rightarrow> 0)\<rparr>
             # la_items rest)
      | _ \<Rightarrow> la_items rest)"

definition la_compare :: "LayoutToken \<Rightarrow> LayoutToken \<Rightarrow> number" where
  "la_compare a b = (if tk_y a = tk_y b then tk_x a - tk_x b else tk_y b - tk_y a)"

definition la_lineStep ::
    "number \<Rightarrow> LayoutToken list list \<times> number \<Rightarrow> LayoutToken
      \<Rightarrow> LayoutToken list list \<times> number" where
  "la_lineStep lineThreshold st item =
     (let (lines, currentY) = st in
      if lines = [] then ([[item]], tk_y item)
      else
        let dy = \<bar>tk_y item - currentY\<bar> in
        if dy \<le> lineThreshold then
          (let currentLine = last lines @ [item] in
           (butlast lines @ [currentLine],
            (currentY * (of_nat (length currentLine) - 1) + tk_y item)
              / of_nat (length currentLine)))
        else (lines @ [[item]], tk_y item))"

definition la_lines :: "number \<Rightarrow> LayoutToken list \<Rightarrow> LayoutToken list list" where
  "la_lines lineThreshold items = fst (foldl (la_lineStep lineThreshold) ([], 0) items)"

text \<open>
  The running extrema start at \<open>Number.POSITIVE_INFINITY\<close> and
  \<open>Number.NEGATIVE_INFINITY\<close>.  The lower edges \<open>x0\<close>, \<open>y0\<close> of a token are its coordinates;
  the upper edges \<open>x1\<close>, \<open>y1\<close> are sums and may be infinite.
\<close>

record Extent =
  minX :: extended
  maxX :: extended
  minY :: extended
  maxY :: extended

definition la_extentStep :: "Extent \<Rightarrow> LayoutToken \<Rightarrow> Extent" where
  "la_extentStep ex it =
     (let x0 = Finite (tk_x it); x1 = jsAdd (tk_x it) (tk_width it);
          y0 = Finite (tk_y it); y1 = jsAdd (tk_y it) (tk_height it)
      in \<lparr>minX = (if jsLess x0 (minX ex) then x0 else minX ex),
          maxX = (if jsLess (maxX ex) x1 then x1 else maxX ex),
          minY = (if jsLess y0 (minY ex) then y0 else minY ex),
          maxY = (if jsLess (maxY ex) y1 then y1 else maxY ex)\<rparr>)"

definition la_extent :: "LayoutToken list \<Rightarrow> Extent" where
  "la_extent line =
     foldl la_extentStep
       \<lparr>minX = PosInfinity, maxX = NegInfinity, minY = PosInfinity, maxY = NegInfinity\<rparr> line"

text \<open>
  The body of the loop over \<open>lines\<close>: \<open>None\<close> is \<open>continue\<close>.  \<open>newId\<close> is the identity
  that \<open>randomUUID()\<close> returns for this line.
\<close>

definition la_region ::
    "string \<Rightarrow> string \<Rightarrow> int \<Rightarrow> number \<Rightarrow> number \<Rightarrow> LayoutToken list
      \<Rightarrow> VisualRegion option" where
  "la_region newId documentId i width height line =
     (if length line = 0 then None
      else
        let texts = trim (concat (map tk_text line)) in
        if texts = [] then None
        else if \<not> isFinite (minX (la_extent line)) \<or> \<not> isFinite (maxX (la_extent line)) \<or>
                \<not> isFinite (minY (la_extent line)) \<or> \<not> isFinite (maxY (la_extent line))
        then None
        else
          (case (minX (la_extent line), maxX (la_extent line),
                 minY (la_extent line), maxY (la_extent line)) of
             (Finite minX', Finite maxX', Finite minY', Finite maxY') \<Rightarrow>
               (let paddingY = height * (4 / 1000);
                    nx0 = minX' / width;
                    nx1 = maxX' / width;
                    ny0 = max 0 ((minY' - paddingY) / height);
                    ny1 = min 1 ((maxY' + paddingY) / height)
                in Some \<lparr>vr_id = newId, vr_documentId = documentId, vr_pageNumber = i,
                          vr_type = Other,
                          vr_bbox = \<lparr>bbox_x0 = nx0, bbox_y0 = ny0, bbox_x1 = nx1, bbox_y1 = ny1\<rparr>\<rparr>)
           | _ \<Rightarrow> None))"

fun la_regions ::
    "(nat \<Rightarrow> string) \<Rightarrow> string \<Rightarrow> int \<Rightarrow> number \<Rightarrow> number \<Rightarrow> nat
      \<Rightarrow> LayoutToken list list \<Rightarrow> VisualRegion list" where
  "la_regions newId documentId i width height k [] = []"
| "la_regions newId documentId i width height k (line # rest) =
     (case la_region (newId k) documentId i width height line of
        None \<Rightarrow> la_regions newId documentId i width height (Suc k) rest
      | Some region \<Rightarrow> region # la_regions newId documentId i width height (Suc k) rest)"

definition la_page :: "(nat \<Rightarrow> string) \<Rightarrow> string \<Rightarrow> int \<Rightarrow> PdfPage \<Rightarrow> LayoutPage" where
  "la_page newId documentId i page =
     (let width = (if viewport_width page = 0 then 1 else viewport_width page);
          height = (if viewport_height page = 0 then 1 else viewport_height page);
          items = sortBy la_compare (la_items (content_items page));
          lineThreshold = height * (12 / 1000);
          lines = la_lines lineThreshold items
      in \<lparr>lp_pageNumber = i, lp_width = viewport_width page, lp_height = viewport_height page,
          lp_regions = la_regions newId documentId i width height 0 lines\<rparr>)"

text \<open>
  \<open>newId i k\<close> is the result of the call of \<open>randomUUID()\<close> made for line \<open>k\<close> of page
  \<open>i\<close>: the identities are input, one per call.
\<close>

definition analyzePdfLayout ::
    "(string + PdfPage list) \<Rightarrow> (int \<Rightarrow> nat \<Rightarrow> string) \<Rightarrow> string \<Rightarrow> string + LayoutPage list" where
  "analyzePdfLayout loaded newId documentId =
     (case loaded of
        Inl err \<Rightarrow> Inl err
      | Inr pdf \<Rightarrow>
          Inr (map (\<lambda>(k, page). la_page (newId (int k + 1)) documentId (int k + 1) page)
                 (enumerate 0 pdf)))"

section \<open>Ingestion pipeline: \<open>IngestionPipeline\<close>\<close>

datatype IngestionStage =
    Queued | Extracting_text | Layout_analysis | Generating_text_embeddings
  | Generating_image_embeddings | Writing_database | Completed | Failed

datatype FileType = Pdf | ImageFile | Zip

record TextEmbedding =
  emb_pageNumber :: int
  emb_text :: string
  emb_embedding :: "number list"

record ImageEmbedding =
  emb_regionId :: string
  emb_vector :: "number list"

text \<open>
  \<open>task.meta\<close> is a bag with the keys \<open>textPages\<close>, \<open>layoutPages\<close>, \<open>textEmbeddings\<close> and
  \<open>imageEmbeddings\<close>; \<open>None\<close> is a key that is not set.
\<close>

record Meta =
  textPages :: "PageTextExtractionResult list option"
  layoutPages :: "LayoutPage list option"
  textEmbeddings :: "TextEmbedding list option"
  imageEmbeddings :: "ImageEmbedding list option"

record IngestionTask =
  taskId :: string
  userId :: string
  fileName :: string
  fileType :: FileType
  sourcePath :: string
  createdAt :: nat
  updatedAt :: nat
  stage :: IngestionStage
  progress :: number
  error :: "string option"
  meta :: "Meta option"

record IngestionProgressEvent =
  ev_taskId :: string
  ev_stage :: IngestionStage
  ev_progress :: number
  ev_message :: "string option"

text \<open>
  Everything the pipeline reads from outside is a field of the environment: the outcome
  of loading a file (for the text extractor and for the layout analyzer, which load it
  anew), the identities \<open>randomUUID()\<close> returns, the configuration variables, the answers
  of the embedding services, whether the database writes of \<open>writeDatabase\<close> raise, and
  the clock.  \<open>Inl\<close> and \<open>Some\<close> carry the message of a raised exception.  A reading of
  the clock is named by the task and the stage for which \<open>new Date()\<close> is called.
\<close>

record Environment =
  loadForText :: "string \<Rightarrow> string + PdfPage list"
  loadForLayout :: "string \<Rightarrow> string + PdfPage list"
  randomUUID :: "string \<Rightarrow> int \<Rightarrow> nat \<Rightarrow> string"
  OPENAI_API_KEY :: bool
  embeddingsCreate :: "string \<Rightarrow> string + number list list"
  IMAGE_EMBEDDING_ENDPOINT :: bool
  fetchImageEmbedding :: "string \<Rightarrow> string + bool \<times> number list option"
  databaseWrites :: "IngestionTask \<Rightarrow> string option"
  dateNow :: "string \<Rightarrow> IngestionStage \<Rightarrow> nat"

text \<open>
  The state of an \<open>IngestionPipeline\<close>: the map \<open>tasks\<close>, the array \<open>queue\<close>, the flag
  \<open>running\<close>, and the events handed to the progress emitter so far, oldest first.
\<close>

record Pipeline =
  tasks :: "string \<rightharpoonup> IngestionTask"
  queue :: "IngestionTask list"
  running :: bool
  emitted :: "IngestionProgressEvent list"

text \<open>
  How a call ends: it returns in a state, or it raises an exception with a message in a
  state.
\<close>

datatype 's outcome = Done 's | Threw string 's

fun finalState :: "'s outcome \<Rightarrow> 's" where
  "finalState (Done s) = s"
| "finalState (Threw err s) = s"

type_synonym StageHandler =
  "Environment \<Rightarrow> IngestionTask \<Rightarrow> Pipeline \<Rightarrow> (IngestionTask \<times> Pipeline) outcome"

text \<open>\<open>ProgressEmitter.emit\<close> and \<open>ProgressEmitter.updateStage\<close>.\<close>

definition emit ::
    "string \<Rightarrow> IngestionStage \<Rightarrow> number \<Rightarrow> string option \<Rightarrow> Pipeline \<Rightarrow> Pipeline" where
  "emit tid st pr msg p =
     p\<lparr>emitted := emitted p @ [\<lparr>ev_taskId = tid, ev_stage = st, ev_progress = pr, ev_message = msg\<rparr>]\<rparr>"

definition updateStage :: "string \<Rightarrow> IngestionStage \<Rightarrow> number \<Rightarrow> Pipeline \<Rightarrow> Pipeline" where
  "updateStage tid st pr p = emit tid st pr None p"

definition updateTaskStage ::
    "Environment \<Rightarrow> IngestionTask \<Rightarrow> IngestionStage \<Rightarrow> number \<Rightarrow> Pipeline
      \<Rightarrow> IngestionTask \<times> Pipeline" where
  "updateTaskStage env task st pr p =
     (let task' = task\<lparr>stage := st, progress := pr, updatedAt := dateNow env (taskId task) st\<rparr>;
          p' = p\<lparr>tasks := (tasks p)(taskId task' \<mapsto> task')\<rparr>
      in (task', updateStage (taskId task') st pr p'))"

definition stageBaseProgress :: "IngestionStage \<Rightarrow> number" where
  "stageBaseProgress st =
     (case st of
        Extracting_text \<Rightarrow> 5
      | Layout_analysis \<Rightarrow> 25
      | Generating_text_embeddings \<Rightarrow> 45
      | Generating_image_embeddings \<Rightarrow> 65
      | Writing_database \<Rightarrow> 85
      | Completed \<Rightarrow> 100
      | _ \<Rightarrow> 0)"

text \<open>\<open>{...(task.meta || {}), key: value}\<close> starts from the bag of the task or an empty one.\<close>

definition metaOf :: "IngestionTask \<Rightarrow> Meta" where
  "metaOf task =
     (case meta task of
        Some m \<Rightarrow> m
      | None \<Rightarrow> \<lparr>textPages = None, layoutPages = None, textEmbeddings = None,
                 imageEmbeddings = None\<rparr>)"

definition extractText :: StageHandler where
  "extractText env task p =
     (case extractTextFromPdf (loadForText env (sourcePath task)) of
        Inl err \<Rightarrow> Threw err (task, p)
      | Inr pages \<Rightarrow>
          (let task' = task\<lparr>meta := Some ((metaOf task)\<lparr>textPages := Some pages\<rparr>)\<rparr>
           in Done (task', p\<lparr>tasks := (tasks p)(taskId task' \<mapsto> task')\<rparr>)))"

definition layoutAnalysis :: StageHandler where
  "layoutAnalysis env task p =
     (case textPages (metaOf task) of
        None \<Rightarrow> Done (task, p)
      | Some pages \<Rightarrow>
          if length pages = 0 then Done (task, p)
          else
            (case analyzePdfLayout (loadForLayout env (sourcePath task))
                    (randomUUID env (taskId task)) (taskId task) of
               Inl err \<Rightarrow> Threw err (task, p)
             | Inr pagesOfLayout \<Rightarrow>
                 (let task' = task\<lparr>meta := Some ((metaOf task)\<lparr>layoutPages := Some pagesOfLayout\<rparr>)\<rparr>
                  in Done (task', p\<lparr>tasks := (tasks p)(taskId task' \<mapsto> task')\<rparr>))))"

text \<open>
  The loop of \<open>generateTextEmbeddings\<close> over the pages, inside its \<open>try\<close>: \<open>None\<close> when the
  embedding request raised (the \<open>catch\<close> logs and the handler returns), the collected
  embeddings otherwise.  The events emitted before an exception stay emitted.
\<close>

fun embedPages ::
    "Environment \<Rightarrow> string \<Rightarrow> nat \<Rightarrow> nat \<Rightarrow> PageTextExtractionResult list \<Rightarrow> TextEmbedding list
      \<Rightarrow> Pipeline \<Rightarrow> TextEmbedding list option \<times> Pipeline" where
  "embedPages env tid total' index [] embeddings p = (Some embeddings, p)"
| "embedPages env tid total' index (page # rest) embeddings p =
     (let input = (if length (tp_text page) > 8000 then slice (tp_text page) 0 8000
                   else tp_text page)
      in case embeddingsCreate env input of
           Inl err \<Rightarrow> (None, p)
         | Inr response \<Rightarrow>
             (let vector = (case response of [] \<Rightarrow> [] | e # _ \<Rightarrow> e);
                  embeddings' = embeddings @
                    [\<lparr>emb_pageNumber = tp_pageNumber page, emb_text = tp_text page,
                      emb_embedding = vector\<rparr>];
                  baseProgress = stageBaseProgress Generating_text_embeddings;
                  progress' = baseProgress + (of_nat (index + 1) / of_nat total') * 15
              in embedPages env tid total' (index + 1) rest embeddings'
                   (emit tid Generating_text_embeddings progress' None p)))"

definition generateTextEmbeddings :: StageHandler where
  "generateTextEmbeddings env task p =
     (case textPages (metaOf task) of
        None \<Rightarrow> Done (task, p)
      | Some pages \<Rightarrow>
          if length pages = 0 then Done (task, p)
          else if \<not> OPENAI_API_KEY env then Done (task, p)
          else
            (case embedPages env (taskId task) (length pages) 0 pages [] p of
               (None, p') \<Rightarrow> Done (task, p')
             | (Some embeddings, p') \<Rightarrow>
                 (let task' = task\<lparr>meta := Some ((metaOf task)\<lparr>textEmbeddings := Some embeddings\<rparr>)\<rparr>
                  in Done (task', p'\<lparr>tasks := (tasks p')(taskId task' \<mapsto> task')\<rparr>))))"

text \<open>
  \<open>simulateWork\<close> and \<open>generateImageEmbeddings\<close>.  The source defines this handler; the list
  of stages in \<open>runTask\<close> does not name it.  The request for one region is keyed by the
  region identity; its answer is \<open>(res.ok, json.embedding)\<close>.
\<close>

fun simulateSteps :: "string \<Rightarrow> IngestionStage \<Rightarrow> nat \<Rightarrow> nat \<Rightarrow> nat \<Rightarrow> Pipeline \<Rightarrow> Pipeline" where
  "simulateSteps tid st steps i 0 p = p"
| "simulateSteps tid st steps i (Suc remaining) p =
     simulateSteps tid st steps (i + 1) remaining
       (emit tid st (stageBaseProgress st + (of_nat i / of_nat steps) * 15) None p)"

definition simulateWork :: "IngestionTask \<Rightarrow> IngestionStage \<Rightarrow> Pipeline \<Rightarrow> Pipeline" where
  "simulateWork task st p = simulateSteps (taskId task) st 4 1 4 p"

fun embedRegions ::
    "Environment \<Rightarrow> string \<Rightarrow> nat \<Rightarrow> nat \<Rightarrow> VisualRegion list \<Rightarrow> ImageEmbedding list \<Rightarrow> Pipeline
      \<Rightarrow> (ImageEmbedding list \<times> Pipeline) outcome" where
  "embedRegions env tid total' index [] found p = Done (found, p)"
| "embedRegions env tid total' index (region # rest) found p =
     (case fetchImageEmbedding env (vr_id region) of
        Inl err \<Rightarrow> Threw err (found, p)
      | Inr (ok, embedding) \<Rightarrow>
          if \<not> ok then embedRegions env tid total' (index + 1) rest found p
          else
            (let vector = (case embedding of None \<Rightarrow> [] | Some v \<Rightarrow> v) in
             if length vector = 0 then embedRegions env tid total' (index + 1) rest found p
             else
               (let found' = found @ [\<lparr>emb_regionId = vr_id region, emb_vector = vector\<rparr>];
                    baseProgress = stageBaseProgress Generating_image_embeddings;
                    progress' = baseProgress + (of_nat (index + 1) / of_nat total') * 15
                in embedRegions env tid total' (index + 1) rest found'
                     (emit tid Generating_image_embeddings progress' None p))))"

definition generateImageEmbeddings :: StageHandler where
  "generateImageEmbeddings env task p =
     (case layoutPages (metaOf task) of
        None \<Rightarrow> Done (task, p)
      | Some pagesOfLayout \<Rightarrow>
          if length pagesOfLayout = 0 then Done (task, p)
          else if \<not> IMAGE_EMBEDDING_ENDPOINT env
          then Done (task, simulateWork task Generating_image_embeddings p)
          else
            (let regions =
                   filter (\<lambda>r. vr_type r = Figure \<or> vr_type r = Table \<or> vr_type r = Image)
                     (concat (map lp_regions pagesOfLayout))
             in if length regions = 0 then Done (task, p)
                else
                  (case embedRegions env (taskId task) (length regions) 0 regions [] p of
                     Threw err (found, p') \<Rightarrow> Threw err (task, p')
                   | Done (found, p') \<Rightarrow>
                       if length found = 0 then Done (task, p')
                       else
                         (let task' = task\<lparr>meta := Some ((metaOf task)\<lparr>imageEmbeddings := Some found\<rparr>)\<rparr>
                          in Done (task', p'\<lparr>tasks := (tasks p')(taskId task' \<mapsto> task')\<rparr>)))))"

text \<open>
  \<open>writeDatabase\<close> returns at once for a task without text pages; otherwise it issues its
  sequence of database writes, which the environment lets succeed or raise.  The rows
  written are outside this model.
\<close>

definition writeDatabase :: StageHandler where
  "writeDatabase env task p =
     (case textPages (metaOf task) of
        None \<Rightarrow> Done (task, p)
      | Some pages \<Rightarrow>
          if length pages = 0 then Done (task, p)
          else
            (case databaseWrites env task of
               Some err \<Rightarrow> Threw err (task, p)
             | None \<Rightarrow> Done (task, p)))"

definition stages :: "(IngestionStage \<times> StageHandler) list" where
  "stages =
     [(Extracting_text, extractText),
      (Layout_analysis, layoutAnalysis),
      (Generating_text_embeddings, generateTextEmbeddings),
      (Writing_database, writeDatabase)]"

text \<open>
  The \<open>for\<close> loop of \<open>runTask\<close> from index \<open>i\<close> on, \<open>n\<close> being \<open>stages.length\<close>: it ends by
  running out of stages or by the exception of a handler.
\<close>

fun runStages ::
    "Environment \<Rightarrow> (IngestionStage \<times> StageHandler) list \<Rightarrow> nat \<Rightarrow> nat \<Rightarrow> IngestionTask \<Rightarrow> Pipeline
      \<Rightarrow> (IngestionTask \<times> Pipeline) outcome" where
  "runStages env [] i n task p = Done (task, p)"
| "runStages env ((st, handler) # rest) i n task p =
     (let (task1, p1) = updateTaskStage env task st ((of_nat i / of_nat n) * 100) p
      in case handler env task1 p1 of
           Threw err s \<Rightarrow> Threw err s
         | Done (task2, p2) \<Rightarrow> runStages env rest (i + 1) n task2 p2)"

definition runTask ::
    "Environment \<Rightarrow> IngestionTask \<Rightarrow> Pipeline \<Rightarrow> (IngestionTask \<times> Pipeline) outcome" where
  "runTask env task p =
     (case runStages env stages 0 (length stages) task p of
        Done (task', p') \<Rightarrow> Done (updateTaskStage env task' Completed 100 p')
      | Threw err (task', p') \<Rightarrow>
          (let task'' = task'\<lparr>error := Some err\<rparr>
           in Done (updateTaskStage env task'' Failed (progress task'') p')))"

text \<open>
  \<open>runNext\<close>, followed through the calls it makes to itself from its \<open>finally\<close> block until
  one of them finds the queue empty.  An exception of \<open>runTask\<close> would pass the \<open>finally\<close>
  block, which has no \<open>catch\<close>, and leave \<open>runNext\<close>.
\<close>

function runNext :: "Environment \<Rightarrow> Pipeline \<Rightarrow> Pipeline outcome" where
  "runNext env p =
     (if running p then Done p
      else
        (case queue p of
           [] \<Rightarrow> Done p
         | task # rest \<Rightarrow>
             (let p1 = p\<lparr>queue := rest, running := True\<rparr> in
              case runTask env task p1 of
                Done (task', p2) \<Rightarrow>
                  (let p3 = p2\<lparr>running := False\<rparr>
                   in if length (queue p3) > 0 then runNext env p3 else Done p3)
              | Threw err (task', p2) \<Rightarrow>
                  (let p3 = p2\<lparr>running := False\<rparr>
                   in if length (queue p3) > 0 then Threw err (finalState (runNext env p3))
                      else Threw err p3))))"
  by pat_completeness auto

text \<open>
  \<open>enqueue\<close>, and the task object that \<open>createTask\<close> builds, stores in \<open>tasks\<close> and
  enqueues: stage \<open>queued\<close>, progress 0, no error, no meta.  A submission that arrives
  while a task runs only extends the queue, since \<open>runNext\<close> returns at its first test
  when \<open>running\<close> is set; the driver then meets it as an element of \<open>queue\<close>.
\<close>

definition enqueue :: "Environment \<Rightarrow> IngestionTask \<Rightarrow> Pipeline \<Rightarrow> Pipeline outcome" where
  "enqueue env task p = runNext env (p\<lparr>queue := queue p @ [task]\<rparr>)"

definition newTask ::
    "Environment \<Rightarrow> string \<Rightarrow> string \<Rightarrow> string \<Rightarrow> FileType \<Rightarrow> string \<Rightarrow> IngestionTask" where
  "newTask env newId user name ftype path =
     \<lparr>taskId = newId, userId = user, fileName = name, fileType = ftype, sourcePath = path,
      createdAt = dateNow env newId Queued, updatedAt = dateNow env newId Queued,
      stage = Queued, progress = 0, error = None, meta = None\<rparr>"

definition idle :: Pipeline where
  "idle = \<lparr>tasks = Map.empty, queue = [], running = False, emitted = []\<rparr>"

section \<open>Search: \<open>semanticSearch\<close> and its route\<close>

text \<open>
  The rows of the tables the search reads, with the columns it uses.  \<open>None\<close> for the
  database is a database that cannot be reached: every query then raises.
\<close>

record TextPageRow =
  tpr_documentId :: string
  tpr_pageNumber :: int
  tpr_text :: string

record VisualRegionRow =
  vrr_id :: string
  vrr_documentId :: string
  vrr_pageNumber :: int
  vrr_y0 :: number

record Database =
  textPageTable :: "TextPageRow list"
  visualRegionTable :: "VisualRegionRow list"

text \<open>
  The vector ranking of the database, the embedding request and two library tests are
  input: \<open>similarPages\<close> gives the rows of the similarity query (page number and text),
  \<open>queryEmbedding\<close> the \<open>data\<close> of the response or, as \<open>Inl\<close>, the exception of the request,
  \<open>uuidSchema\<close> is the test of \<open>z.string().uuid()\<close>, and \<open>takeOutside\<close> is what
  \<open>findMany\<close> answers, given the ordered matching rows, when \<open>take\<close> is not a natural
  number.
\<close>

record SearchEnvironment =
  database :: "Database option"
  searchApiKey :: bool
  queryEmbedding :: "string \<Rightarrow> string + number list list"
  similarPages :: "string \<Rightarrow> number list \<Rightarrow> number \<Rightarrow> (int \<times> string) list"
  uuidSchema :: "string \<Rightarrow> bool"
  takeOutside :: "number \<Rightarrow> (int \<times> string) list \<Rightarrow> string + (int \<times> string) list"

record SemanticSearchResultItem =
  res_documentId :: string
  res_pageNumber :: int
  res_snippet :: string
  res_regionIds :: "string option list"

definition containsText :: "string \<Rightarrow> string \<Rightarrow> bool" where
  "containsText s q = (indexOf s q \<noteq> - 1)"

text \<open>
  \<open>prisma.textPage.findMany\<close> with \<open>where: {documentId, text: {contains: query}}\<close>, ordered by
  page number and cut at \<open>take\<close>; the rows are given as (page number, text).
\<close>

definition textPageFindMany ::
    "SearchEnvironment \<Rightarrow> string \<Rightarrow> string \<Rightarrow> number \<Rightarrow> string + (int \<times> string) list" where
  "textPageFindMany env documentId query limit =
     (case database env of
        None \<Rightarrow> Inl ''database unavailable''
      | Some db \<Rightarrow>
          (let rows = map (\<lambda>r. (tpr_pageNumber r, tpr_text r))
                        (sort_key tpr_pageNumber
                          (filter (\<lambda>r. tpr_documentId r = documentId \<and>
                                        containsText (tpr_text r) query)
                            (textPageTable db)))
           in if 0 \<le> limit \<and> of_int \<lfloor>limit\<rfloor> = limit
              then Inr (take (nat \<lfloor>limit\<rfloor>) rows)
              else takeOutside env limit rows))"

text \<open>
  \<open>prisma.visualRegion.findMany\<close> for the pages named, ordered by page number, then \<open>y0\<close>.
\<close>

definition visualRegionFindMany ::
    "SearchEnvironment \<Rightarrow> string \<Rightarrow> int list \<Rightarrow> string + VisualRegionRow list" where
  "visualRegionFindMany env documentId pageNumbers =
     (case database env of
        None \<Rightarrow> Inl ''database unavailable''
      | Some db \<Rightarrow>
          Inr (sort_key vrr_pageNumber
                (sort_key vrr_y0
                  (filter (\<lambda>r. vrr_documentId r = documentId \<and> vrr_pageNumber r \<in> set pageNumbers)
                    (visualRegionTable db)))))"

text \<open>The loop that fills \<open>regionsByPage\<close>.\<close>

definition regionsByPageOf :: "VisualRegionRow list \<Rightarrow> (int \<rightharpoonup> string list)" where
  "regionsByPageOf regions =
     foldl (\<lambda>m r. m(vrr_pageNumber r \<mapsto>
                      (case m (vrr_pageNumber r) of None \<Rightarrow> [] | Some l \<Rightarrow> l) @ [vrr_id r]))
       Map.empty regions"

text \<open>The character U+2026, which stands outside ASCII.\<close>

definition ellipsis :: string where
  "ellipsis = [CHR 0x85]"

text \<open>The callback of \<open>matches.map\<close>: the snippet and the regions of one hit.\<close>

definition resultItem ::
    "string \<Rightarrow> string \<Rightarrow> (int \<rightharpoonup> string list) \<Rightarrow> int \<times> string \<Rightarrow> SemanticSearchResultItem" where
  "resultItem documentId query regionsByPage m =
     (let text = snd m;
          queryLower = toLowerCase query;
          textLower = toLowerCase text;
          idx = indexOf textLower queryLower;
          window = 60;
          snippet =
            (if idx = - 1 then slice text 0 (window * 2)
             else
               let start = max 0 (idx - window);
                   end' = min (int (length text)) (idx + int (length query) + window)
               in (if start > 0 then ellipsis else []) @ slice text start end'
                    @ (if end' < int (length text) then ellipsis else []));
          regionIds = pickRegionIdsForText (fst m) text query regionsByPage
      in \<lparr>res_documentId = documentId, res_pageNumber = fst m, res_snippet = snippet,
          res_regionIds = regionIds\<rparr>)"

definition buildResultsFromTextPages ::
    "SearchEnvironment \<Rightarrow> string \<Rightarrow> string \<Rightarrow> (int \<times> string) list
      \<Rightarrow> string + SemanticSearchResultItem list" where
  "buildResultsFromTextPages env documentId query matches =
     (if length matches = 0 then Inr []
      else
        let pageNumbers = remdups (map fst matches) in
        case visualRegionFindMany env documentId pageNumbers of
          Inl err \<Rightarrow> Inl err
        | Inr regions \<Rightarrow>
            Inr (map (resultItem documentId query (regionsByPageOf regions)) matches))"

definition semanticSearch ::
    "SearchEnvironment \<Rightarrow> string \<Rightarrow> string \<Rightarrow> number option
      \<Rightarrow> string + SemanticSearchResultItem list" where
  "semanticSearch env documentId query limit =
     (let effectiveLimit = (case limit of None \<Rightarrow> 10 | Some l \<Rightarrow> l) in
      case textPageFindMany env documentId query effectiveLimit of
        Inl err \<Rightarrow> Inl err
      | Inr keywordMatches \<Rightarrow>
          if length keywordMatches > 0
          then buildResultsFromTextPages env documentId query keywordMatches
          else if \<not> searchApiKey env then Inl ''embedding_model_not_configured''
          else
            (case queryEmbedding env query of
               Inl err \<Rightarrow> Inl err
             | Inr response \<Rightarrow>
                 (let embedding = (case response of [] \<Rightarrow> None | e # _ \<Rightarrow> Some e) in
                  case embedding of
                    None \<Rightarrow>
                      (case textPageFindMany env documentId query effectiveLimit of
                         Inl err \<Rightarrow> Inl err
                       | Inr matches \<Rightarrow> buildResultsFromTextPages env documentId query matches)
                  | Some vector \<Rightarrow>
                      if length vector = 0 then
                        (case textPageFindMany env documentId query effectiveLimit of
                           Inl err \<Rightarrow> Inl err
                         | Inr matches \<Rightarrow> buildResultsFromTextPages env documentId query matches)
                      else
                        (case database env of
                           None \<Rightarrow> Inl ''database unavailable''
                         | Some db \<Rightarrow>
                             (let rows = similarPages env documentId vector effectiveLimit in
                              if length rows = 0 then
                                (case textPageFindMany env documentId query effectiveLimit of
                                   Inl err \<Rightarrow> Inl err
                                 | Inr matches \<Rightarrow>
                                     buildResultsFromTextPages env documentId query matches)
                              else
                                (case visualRegionFindMany env documentId
                                        (remdups (map fst rows)) of
                                   Inl err \<Rightarrow> Inl err
                                 | Inr regions \<Rightarrow>
                                     Inr (map (resultItem documentId query
                                                (regionsByPageOf regions)) rows)))))))"

text \<open>
  The request of \<open>GET /documents/:id/search/semantic\<close>: the \<open>id\<close> of the path, the query
  parameter \<open>q\<close> (\<open>None\<close> when it is absent or not a string) and the query parameter
  \<open>limit\<close>, which the schema coerces to a number: it is absent, or coerces to a finite
  number, or to \<open>NaN\<close> or an infinity, which the schema refuses alike.
\<close>

datatype QueryNumber = Absent | Given number | NotFinite

record SearchRequest =
  req_id :: string
  req_q :: "string option"
  req_limit :: QueryNumber

text \<open>
  \<open>schema.parse\<close>: \<open>id\<close> a UUID, \<open>q\<close> a string of at least one character, \<open>limit\<close> absent
  or a number from 1 to 50.  \<open>Inl\<close> is the exception it raises.
\<close>

definition schemaParse ::
    "SearchEnvironment \<Rightarrow> SearchRequest \<Rightarrow> string + string \<times> string \<times> number option" where
  "schemaParse env req =
     (if \<not> uuidSchema env (req_id req) then Inl ''ZodError''
      else
        (case req_q req of
           None \<Rightarrow> Inl ''ZodError''
         | Some q \<Rightarrow>
             if length q < 1 then Inl ''ZodError''
             else
               (case req_limit req of
                  Absent \<Rightarrow> Inr (req_id req, q, None)
                | NotFinite \<Rightarrow> Inl ''ZodError''
                | Given l \<Rightarrow>
                    if l < 1 \<or> 50 < l then Inl ''ZodError''
                    else Inr (req_id req, q, Some l))))"

text \<open>
  The handler of the route: what it sends.  \<open>schema.parse\<close> runs before the \<open>try\<close>, so
  its exception leaves the handler and the framework answers with an error response;
  an exception of \<open>semanticSearch\<close> is caught and answered with an empty list of results.
\<close>

datatype Reply = Results "SemanticSearchResultItem list" | ErrorResponse string

definition searchRoute :: "SearchEnvironment \<Rightarrow> SearchRequest \<Rightarrow> Reply" where
  "searchRoute env req =
     (case schemaParse env req of
        Inl err \<Rightarrow> ErrorResponse err
      | Inr (documentId, q, limit) \<Rightarrow>
          (case semanticSearch env documentId q limit of
             Inr results \<Rightarrow> Results results
           | Inl err \<Rightarrow> Results []))"

section \<open>Predicates and sample inputs used in the statements\<close>

text \<open>
  \<open>occursAt s q k\<close>: the string \<open>q\<close> occurs in \<open>s\<close> at offset \<open>k\<close>.  \<open>lineOfOffset s k\<close>:
  the number of newline characters of \<open>s\<close> before offset \<open>k\<close>.
\<close>

definition occursAt :: "string \<Rightarrow> string \<Rightarrow> nat \<Rightarrow> bool" where
  "occursAt s q k = (k \<le> length s \<and> startsWith (drop k s) q)"

definition lineOfOffset :: "string \<Rightarrow> nat \<Rightarrow> nat" where
  "lineOfOffset s k = length (filter (\<lambda>c. c = newline) (take k s))"







text \<open>
  Sample pages: a text item as pdf.js reports it, at position \<open>(x, y)\<close>.  The last page
  holds a token at \<open>x = 2^1023\<close> of width \<open>2^1023\<close>.
\<close>

definition textItem :: "string \<Rightarrow> number \<Rightarrow> number \<Rightarrow> number \<Rightarrow> number \<Rightarrow> RawItem" where
  "textItem s x y w h =
     \<lparr>item_str = Some s, item_transform = Some (1, 0, 0, 1, x, y),
      item_width = Some w, item_height = Some h\<rparr>"

definition sample_page :: PdfPage where
  "sample_page =
     \<lparr>viewport_width = 100, viewport_height = 200,
      content_items = [textItem ''World'' 50 100 20 10, textItem '' Hello '' 10 101 30 10,
                       textItem ''x'' 10 50 5 5, textItem ''  '' 10 20 5 5]\<rparr>"



definition two_to_1023 :: number where
  "two_to_1023 =
     89884656743115795386465259539451236680898848947115328636715040578866337902750481566354238661203768010560056939935696678829394884407208311246423715319737062188883946712432742638151109800623047059726541476042502884419075341171231440736956555270413618581675255342293149119973622969239858152417678164812112068608"



definition padded_page :: PdfPage where
  "padded_page =
     \<lparr>viewport_width = 100, viewport_height = 200,
      content_items = [textItem '' a'' 10 100 10 10]\<rparr>"

text \<open>
  The task at the end of a call and the message of the exception it raised, if any.
  \<open>raisedBy env task\<close> is the exception the stage handlers raise on the task when it runs
  alone in an idle pipeline, \<open>settled env task\<close> the task object this run leaves.
\<close>

definition taskOf :: "(IngestionTask \<times> Pipeline) outcome \<Rightarrow> IngestionTask" where
  "taskOf out = fst (finalState out)"

fun raised :: "'s outcome \<Rightarrow> string option" where
  "raised (Done s) = None"
| "raised (Threw err s) = Some err"

definition raisedBy :: "Environment \<Rightarrow> IngestionTask \<Rightarrow> string option" where
  "raisedBy env task = raised (runStages env stages 0 (length stages) task idle)"

definition settled :: "Environment \<Rightarrow> IngestionTask \<Rightarrow> IngestionTask" where
  "settled env task = taskOf (runTask env task idle)"

text \<open>
  What a stage handler may do: change the \<open>meta\<close> of the task it is given, store that
  task in \<open>tasks\<close> under its identity and emit events; when it raises, the task is as it
  was.  Its effect on the task and the exception it raises do not depend on the pipeline.
\<close>

definition touchesOnly :: "IngestionTask \<Rightarrow> Pipeline \<Rightarrow> IngestionTask \<times> Pipeline \<Rightarrow> bool" where
  "touchesOnly task p s =
     (queue (snd s) = queue p \<and> running (snd s) = running p \<and>
      tasks (snd s) = (tasks p)(taskId task := tasks (snd s) (taskId task)) \<and>
      taskId (fst s) = taskId task)"

definition handlerLike :: "StageHandler \<Rightarrow> bool" where
  "handlerLike h =
     (\<forall>env task p.
        touchesOnly task p (finalState (h env task p)) \<and>
        fst (finalState (h env task p)) = task\<lparr>meta := meta (fst (finalState (h env task p)))\<rparr> \<and>
        (raised (h env task p) \<noteq> None \<longrightarrow> fst (finalState (h env task p)) = task) \<and>
        (\<forall>q. map_outcome fst (h env task q) = map_outcome fst (h env task p)))"

text \<open>
  \<open>taskAtException env task p\<close>: the task as the loop of \<open>runTask\<close> leaves it when it ends.
\<close>

definition taskAtException :: "Environment \<Rightarrow> IngestionTask \<Rightarrow> Pipeline \<Rightarrow> IngestionTask" where
  "taskAtException env task p = fst (finalState (runStages env stages 0 (length stages) task p))"

text \<open>
  The exception the stage handlers raise on a task, read off the environment.  The
  extraction raises when the file cannot be loaded.  With pages extracted, the layout
  analysis raises when the file cannot be loaded anew; the embedding handler catches
  what its requests raise; the database handler raises when the writes for the task it
  is handed raise.  \<open>handedToWrite\<close> is that task: the submitted one in the stage
  \<open>writing_database\<close> with progress \<open>(3 / 4) * 100\<close>, carrying the extracted pages, the
  layout pages, and the embeddings when the service is configured and every request
  succeeded.  Without pages no later handler does anything.
\<close>

definition embeddingsFor ::
    "Environment \<Rightarrow> IngestionTask \<Rightarrow> PageTextExtractionResult list \<Rightarrow> TextEmbedding list option" where
  "embeddingsFor env task pages =
     (if OPENAI_API_KEY env
      then (case fst (embedPages env (taskId task) (length pages) 0 pages [] idle) of
              None \<Rightarrow> textEmbeddings (metaOf task)
            | Some embeddings \<Rightarrow> Some embeddings)
      else textEmbeddings (metaOf task))"

definition handedToWrite ::
    "Environment \<Rightarrow> IngestionTask \<Rightarrow> PageTextExtractionResult list \<Rightarrow> LayoutPage list
      \<Rightarrow> IngestionTask" where
  "handedToWrite env task pages pagesOfLayout =
     task\<lparr>meta := Some ((metaOf task)\<lparr>textPages := Some pages,
                                       layoutPages := Some pagesOfLayout,
                                       textEmbeddings := embeddingsFor env task pages\<rparr>),
          stage := Writing_database, progress := (3 / 4) * 100,
          updatedAt := dateNow env (taskId task) Writing_database\<rparr>"

definition stageFailure :: "Environment \<Rightarrow> IngestionTask \<Rightarrow> string option" where
  "stageFailure env task =
     (case extractTextFromPdf (loadForText env (sourcePath task)) of
        Inl err \<Rightarrow> Some err
      | Inr pages \<Rightarrow>
          if pages = [] then None
          else
            (case analyzePdfLayout (loadForLayout env (sourcePath task))
                    (randomUUID env (taskId task)) (taskId task) of
               Inl err \<Rightarrow> Some err
             | Inr pagesOfLayout \<Rightarrow>
                 databaseWrites env (handedToWrite env task pages pagesOfLayout)))"

text \<open>
  A sample environment: every file but \<open>b.pdf\<close> loads as four copies of the sample page,
  the embedding service is configured and answers, an image-embedding endpoint is
  configured, the database writes succeed.  Three tasks for the files \<open>a.pdf\<close>, \<open>b.pdf\<close>
  and \<open>c.pdf\<close>.
\<close>

definition sample_pdf :: "PdfPage list" where
  "sample_pdf = [sample_page, sample_page, sample_page, sample_page]"

definition sample_env :: Environment where
  "sample_env =
     \<lparr>loadForText = (\<lambda>path. if path = ''b.pdf'' then Inl ''unreadable'' else Inr sample_pdf),
      loadForLayout = (\<lambda>path. Inr sample_pdf),
      randomUUID = (\<lambda>doc i k. doc @ ''-region''),
      OPENAI_API_KEY = True,
      embeddingsCreate = (\<lambda>input. Inr [[1, 0]]),
      IMAGE_EMBEDDING_ENDPOINT = True,
      fetchImageEmbedding = (\<lambda>region. Inr (True, Some [1])),
      databaseWrites = (\<lambda>task. None),
      dateNow = (\<lambda>tid st. 0)\<rparr>"

definition task_A :: IngestionTask where
  "task_A = newTask sample_env ''A'' ''user'' ''a.pdf'' Pdf ''a.pdf''"

definition task_B :: IngestionTask where
  "task_B = newTask sample_env ''B'' ''user'' ''b.pdf'' Pdf ''b.pdf''"

definition task_C :: IngestionTask where
  "task_C = newTask sample_env ''C'' ''user'' ''c.pdf'' Pdf ''c.pdf''"

definition three_queued :: Pipeline where
  "three_queued = idle\<lparr>queue := [task_A, task_B, task_C]\<rparr>"

text \<open>
  A second environment, of one-page files: the file \<open>d.pdf\<close> loads for the text extractor
  but not for the layout analyzer, and the database writes for the task \<open>E\<close> raise.
\<close>

definition faulty_env :: Environment where
  "faulty_env =
     \<lparr>loadForText = (\<lambda>path. Inr [sample_page]),
      loadForLayout = (\<lambda>path. if path = ''d.pdf'' then Inl ''no layout'' else Inr [sample_page]),
      randomUUID = (\<lambda>doc i k. doc @ ''-region''),
      OPENAI_API_KEY = True,
      embeddingsCreate = (\<lambda>input. Inr [[1, 0]]),
      IMAGE_EMBEDDING_ENDPOINT = False,
      fetchImageEmbedding = (\<lambda>region. Inr (True, Some [1])),
      databaseWrites = (\<lambda>task. if taskId task = ''E'' then Some ''write refused'' else None),
      dateNow = (\<lambda>tid st. 0)\<rparr>"

definition task_D :: IngestionTask where
  "task_D = newTask faulty_env ''D'' ''user'' ''d.pdf'' Pdf ''d.pdf''"

definition task_E :: IngestionTask where
  "task_E = newTask faulty_env ''E'' ''user'' ''e.pdf'' Pdf ''e.pdf''"

definition task_F :: IngestionTask where
  "task_F = newTask faulty_env ''F'' ''user'' ''f.pdf'' Pdf ''f.pdf''"

definition faulty_queued :: Pipeline where
  "faulty_queued = idle\<lparr>queue := [task_D, task_E, task_F]\<rparr>"

text \<open>
  The literal matches of a query in a database, and the results built from them with the
  regions the database holds for their pages.
\<close>

definition literalMatches :: "Database \<Rightarrow> string \<Rightarrow> string \<Rightarrow> nat \<Rightarrow> (int \<times> string) list" where
  "literalMatches db documentId query limit =
     take limit
       (map (\<lambda>r. (tpr_pageNumber r, tpr_text r))
         (sort_key tpr_pageNumber
           (filter (\<lambda>r. tpr_documentId r = documentId \<and> containsText (tpr_text r) query)
             (textPageTable db))))"

definition literalResults ::
    "Database \<Rightarrow> string \<Rightarrow> string \<Rightarrow> nat \<Rightarrow> SemanticSearchResultItem list" where
  "literalResults db documentId query limit =
     map (resultItem documentId query
            (regionsByPageOf
               (sort_key vrr_pageNumber
                 (sort_key vrr_y0
                   (filter (\<lambda>r. vrr_documentId r = documentId \<and>
                                 vrr_pageNumber r \<in> set (map fst (literalMatches db documentId query limit)))
                     (visualRegionTable db))))))
       (literalMatches db documentId query limit)"

definition limitOf :: "number option \<Rightarrow> number" where
  "limitOf limit = (case limit of None \<Rightarrow> 10 | Some l \<Rightarrow> l)"

text \<open>
  A sample database: a document of three pages, the third of which holds the word
  \<open>needle\<close>, with one region on that page; environments in which the embedding request
  raises and in which it returns no vector; and requests for that document.  The UUID
  test of the samples accepts the strings of 32 hexadecimal digits grouped 8-4-4-4-12.
\<close>

definition hexDigit :: "char \<Rightarrow> bool" where
  "hexDigit c = (c \<in> set ''0123456789abcdefABCDEF'')"

definition uuidShaped :: "string \<Rightarrow> bool" where
  "uuidShaped s =
     (length s = 36 \<and>
      list_all (\<lambda>(k, c). if k \<in> {8, 13, 18, 23} then c = CHR ''-'' else hexDigit c)
        (enumerate 0 s))"

definition sample_document :: string where
  "sample_document = ''123e4567-e89b-12d3-a456-426614174000''"

definition sample_db :: Database where
  "sample_db =
     \<lparr>textPageTable =
        [\<lparr>tpr_documentId = sample_document, tpr_pageNumber = 1, tpr_text = ''first page''\<rparr>,
         \<lparr>tpr_documentId = sample_document, tpr_pageNumber = 2, tpr_text = ''second page''\<rparr>,
         \<lparr>tpr_documentId = sample_document, tpr_pageNumber = 3, tpr_text = ''a needle here''\<rparr>],
      visualRegionTable =
        [\<lparr>vrr_id = ''r3'', vrr_documentId = sample_document, vrr_pageNumber = 3, vrr_y0 = 1 / 2\<rparr>]\<rparr>"

definition failing_search_env :: SearchEnvironment where
  "failing_search_env =
     \<lparr>database = Some sample_db, searchApiKey = True,
      queryEmbedding = (\<lambda>q. Inl ''request failed''),
      similarPages = (\<lambda>documentId v limit. []),
      uuidSchema = uuidShaped,
      takeOutside = (\<lambda>limit rows. Inl ''invalid take'')\<rparr>"

definition empty_search_env :: SearchEnvironment where
  "empty_search_env =
     \<lparr>database = Some sample_db, searchApiKey = True,
      queryEmbedding = (\<lambda>q. Inr []),
      similarPages = (\<lambda>documentId v limit. []),
      uuidSchema = uuidShaped,
      takeOutside = (\<lambda>limit rows. Inl ''invalid take'')\<rparr>"

definition request_for :: "string \<Rightarrow> SearchRequest" where
  "request_for q = \<lparr>req_id = sample_document, req_q = Some q, req_limit = Absent\<rparr>"

section \<open>Region mapping\<close>

lemma length_split: "length (split sep s) = Suc (length (filter (\<lambda>c. c = sep) s))"
  by (induction s) (auto split: list.splits)

lemma indexOfFrom_absent:
  "(\<forall>k. \<not> occursAt s q k) \<Longrightarrow> indexOfFrom i s q = - 1"
proof (induction s arbitrary: i)
  case Nil
  then have "\<not> occursAt [] q 0" by blast
  then show ?case by (cases q) (auto simp: occursAt_def)
next
  case (Cons c cs)
  have "\<not> occursAt (c # cs) q 0" using Cons.prems by blast
  then have ns: "\<not> startsWith (c # cs) q" by (simp add: occursAt_def)
  have "\<forall>k. \<not> occursAt cs q k"
  proof
    fix k
    have "\<not> occursAt (c # cs) q (Suc k)" using Cons.prems by blast
    then show "\<not> occursAt cs q k" by (simp add: occursAt_def)
  qed
  then show ?case using Cons.IH ns by simp
qed

lemma indexOfFrom_first:
  "occursAt s q k \<Longrightarrow> (\<forall>j<k. \<not> occursAt s q j) \<Longrightarrow> indexOfFrom i s q = i + int k"
proof (induction s arbitrary: i k)
  case Nil
  then show ?case by (cases q) (auto simp: occursAt_def)
next
  case (Cons c cs)
  show ?case
  proof (cases k)
    case 0
    then show ?thesis using Cons.prems(1) by (simp add: occursAt_def)
  next
    case (Suc k')
    have "\<not> occursAt (c # cs) q 0" using Cons.prems(2) Suc by blast
    then have ns: "\<not> startsWith (c # cs) q" by (simp add: occursAt_def)
    have a: "occursAt cs q k'" using Cons.prems(1) Suc by (simp add: occursAt_def)
    have b: "\<forall>j<k'. \<not> occursAt cs q j"
    proof (intro allI impI)
      fix j assume "j < k'"
      then have "\<not> occursAt (c # cs) q (Suc j)" using Cons.prems(2) Suc by auto
      then show "\<not> occursAt cs q j" by (simp add: occursAt_def)
    qed
    show ?thesis using Cons.IH[OF a b, of "i + 1"] ns Suc by simp
  qed
qed

lemma slice_prefix: "slice xs 0 (int k) = take k xs"
  by (auto simp: slice_def sliceBound_def Let_def min_def)

lemma slice_window: "a \<le> b \<Longrightarrow> slice xs (int a) (int b) = take (b - a) (drop a xs)"
  apply (auto simp: slice_def sliceBound_def Let_def min_def)
  done

lemma take_drop_nth_map:
  "a + n \<le> length xs \<Longrightarrow> take n (drop a xs) = map (\<lambda>i. xs ! i) [a ..< a + n]"
  by (rule nth_equalityI) auto

lemma toLowerCase_length: "length (toLowerCase s) = length s"
  by (simp add: toLowerCase_def)

lemma occursAt_le: "occursAt s q k \<Longrightarrow> k \<le> length s"
  by (simp add: occursAt_def)

lemma window_eq:
  assumes "L \<le> length ids" and "ids \<noteq> []"
  shows "(let windowLines = 1;
              startIndex0 = int L - windowLines;
              endIndex0 = int L + windowLines;
              startIndex = (if startIndex0 < 0 then 0 else startIndex0);
              endIndex1 = (if endIndex0 \<ge> int (length ids)
                           then int (length ids) - 1 else endIndex0);
              endIndex = (if endIndex1 < startIndex then startIndex else endIndex1);
              selected = slice ids startIndex (endIndex + 1) in
          if length selected > 0 then map Some selected
          else [at_index ids startIndex])
         = map (\<lambda>i. Some (ids ! i)) [L - 1 ..< Suc (min (length ids - 1) (L + 1))]"
proof -
  define a where "a = L - 1"
  define b where "b = Suc (min (length ids - 1) (L + 1))"
  have N: "1 \<le> length ids" using assms(2) by (cases ids) auto
  have ab: "a < b" "b \<le> length ids" using assms(1) N by (auto simp: a_def b_def)
  have start: "(if int L - 1 < 0 then 0 else int L - 1) = int a"
    by (auto simp: a_def)
  have end1: "(if int L + 1 \<ge> int (length ids) then int (length ids) - 1 else int L + 1) = int b - 1"
    using N by (auto simp: b_def min_def)
  have end2: "(if int b - 1 < int a then int a else int b - 1) + 1 = int b"
    using ab by auto
  have sel: "slice ids (int a) (int b) = map (\<lambda>i. ids ! i) [a ..< b]"
    using ab take_drop_nth_map[of a "b - a" ids] by (simp add: slice_window)
  have nonempty: "length (slice ids (int a) (int b)) > 0"
    using ab by (simp add: sel)
  have "(let windowLines = 1;
              startIndex0 = int L - windowLines;
              endIndex0 = int L + windowLines;
              startIndex = (if startIndex0 < 0 then 0 else startIndex0);
              endIndex1 = (if endIndex0 \<ge> int (length ids)
                           then int (length ids) - 1 else endIndex0);
              endIndex = (if endIndex1 < startIndex then startIndex else endIndex1);
              selected = slice ids startIndex (endIndex + 1) in
          if length selected > 0 then map Some selected
          else [at_index ids startIndex])
        = map Some (slice ids (int a) (int b))"
    unfolding Let_def start end1 end2 using nonempty by simp
  also have "\<dots> = map (\<lambda>i. Some (ids ! i)) [a ..< b]"
    unfolding sel by simp
  finally show ?thesis unfolding a_def b_def .
qed

text \<open>
  Where the region mapping is as specified.  For a page with \<open>N \<ge> 1\<close> regions: when the
  lower-cased query occurs nowhere in the lower-cased page text, the result is the single
  region at index \<open>N div 2\<close>; when its first occurrence is at offset \<open>k\<close>, \<open>L\<close> is the number
  of newlines before \<open>k\<close> and \<open>L \<le> N\<close>, the result is exactly the identities at the indices
  from \<open>max 0 (L - 1)\<close> to \<open>min (N - 1) (L + 1)\<close>, in order.
\<close>

lemma pickRegionIdsForText_window:
  assumes ids: "regionsByPage pageNumber = Some ids" and n: "1 \<le> length ids"
  shows "((\<forall>k. \<not> occursAt (toLowerCase text) (toLowerCase query) k) \<longrightarrow>
            pickRegionIdsForText pageNumber text query regionsByPage
              = [Some (ids ! (length ids div 2))]) \<and>
         (\<forall>k. occursAt (toLowerCase text) (toLowerCase query) k \<and>
               (\<forall>j<k. \<not> occursAt (toLowerCase text) (toLowerCase query) j) \<and>
               lineOfOffset text k \<le> length ids \<longrightarrow>
            pickRegionIdsForText pageNumber text query regionsByPage
              = map (\<lambda>i. Some (ids ! i))
                  [lineOfOffset text k - 1 ..< Suc (min (length ids - 1) (lineOfOffset text k + 1))])"
proof (intro conjI allI impI)
  assume "\<forall>k. \<not> occursAt (toLowerCase text) (toLowerCase query) k"
  then have "indexOf (toLowerCase text) (toLowerCase query) = - 1"
    by (simp add: indexOf_def indexOfFrom_absent)
  moreover have "int (length ids) div 2 = int (length ids div 2)" by simp
  moreover have "length ids div 2 < length ids" "ids \<noteq> []" using n by auto
  ultimately show "pickRegionIdsForText pageNumber text query regionsByPage
      = [Some (ids ! (length ids div 2))]"
    using ids n by (simp add: pickRegionIdsForText_def Let_def at_index_def del: of_nat_div)
next
  fix k
  assume h: "occursAt (toLowerCase text) (toLowerCase query) k \<and>
       (\<forall>j<k. \<not> occursAt (toLowerCase text) (toLowerCase query) j) \<and>
       lineOfOffset text k \<le> length ids"
  have ne: "ids \<noteq> []" using n by auto
  have idx: "indexOf (toLowerCase text) (toLowerCase query) = int k"
    using h indexOfFrom_first[of "toLowerCase text" "toLowerCase query" k 0]
    by (simp add: indexOf_def)
  have line: "int (length (split newline (slice text 0 (int k)))) - 1 = int (lineOfOffset text k)"
    by (simp add: slice_prefix length_split lineOfOffset_def)
  have "pickRegionIdsForText pageNumber text query regionsByPage =
         (let windowLines = 1;
              startIndex0 = int (lineOfOffset text k) - windowLines;
              endIndex0 = int (lineOfOffset text k) + windowLines;
              startIndex = (if startIndex0 < 0 then 0 else startIndex0);
              endIndex1 = (if endIndex0 \<ge> int (length ids)
                           then int (length ids) - 1 else endIndex0);
              endIndex = (if endIndex1 < startIndex then startIndex else endIndex1);
              selected = slice ids startIndex (endIndex + 1) in
          if length selected > 0 then map Some selected
          else [at_index ids startIndex])"
    unfolding pickRegionIdsForText_def Let_def idx line using ids ne by simp
  also have "\<dots> = map (\<lambda>i. Some (ids ! i))
          [lineOfOffset text k - 1 ..< Suc (min (length ids - 1) (lineOfOffset text k + 1))]"
    using window_eq[of "lineOfOffset text k" ids] h ne by blast
  finally show "pickRegionIdsForText pageNumber text query regionsByPage
      = map (\<lambda>i. Some (ids ! i))
          [lineOfOffset text k - 1 ..< Suc (min (length ids - 1) (lineOfOffset text k + 1))]" .
qed

text \<open>
  The lemma at a page of four regions whose third line holds the query in another case,
  and at a page of five regions that does not hold the query.
\<close>

lemma pickRegionIdsForText_window_sample:
  "pickRegionIdsForText 1 [CHR ''a'', newline, CHR ''b'', newline, CHR ''C'', newline, CHR ''d''] ''c''
      [1 \<mapsto> [''r0'', ''r1'', ''r2'', ''r3'']] = [Some ''r1'', Some ''r2'', Some ''r3''] \<and>
   pickRegionIdsForText 1 ''abc'' ''z''
      [1 \<mapsto> [''r0'', ''r1'', ''r2'', ''r3'', ''r4'']] = [Some ''r2'']"
proof -
  let ?m = "[1 \<mapsto> [''r0'', ''r1'', ''r2'', ''r3'']] :: int \<rightharpoonup> string list"
  let ?t = "[CHR ''a'', newline, CHR ''b'', newline, CHR ''C'', newline, CHR ''d'']"
  have occ: "occursAt (toLowerCase ?t) (toLowerCase ''c'') 4"
    by code_simp
  have "\<not> occursAt (toLowerCase ?t) (toLowerCase ''c'') 0"
       "\<not> occursAt (toLowerCase ?t) (toLowerCase ''c'') 1"
       "\<not> occursAt (toLowerCase ?t) (toLowerCase ''c'') 2"
       "\<not> occursAt (toLowerCase ?t) (toLowerCase ''c'') 3"
    by code_simp+
  then have first: "\<forall>j<4. \<not> occursAt (toLowerCase ?t) (toLowerCase ''c'') j"
    by (auto simp: numeral_eq_Suc less_Suc_eq)
  have line: "lineOfOffset ?t 4 = 2"
    by code_simp
  have m: "?m 1 = Some [''r0'', ''r1'', ''r2'', ''r3'']"
    and n: "1 \<le> length [''r0'', ''r1'', ''r2'', ''r3'']" by simp_all
  have rng: "map (\<lambda>i. Some ([''r0'', ''r1'', ''r2'', ''r3''] ! i))
               [2 - 1 ..< Suc (min (length [''r0'', ''r1'', ''r2'', ''r3''] - 1) (2 + 1))]
             = [Some ''r1'', Some ''r2'', Some ''r3'']"
    by code_simp
  have a: "pickRegionIdsForText 1 ?t ''c'' ?m = [Some ''r1'', Some ''r2'', Some ''r3'']"
    using conjunct2[OF pickRegionIdsForText_window[of ?m 1 "[''r0'', ''r1'', ''r2'', ''r3'']" ?t "''c''",
          OF m n], rule_format, of 4] occ first
    unfolding line rng by simp
  let ?m2 = "[1 \<mapsto> [''r0'', ''r1'', ''r2'', ''r3'', ''r4'']] :: int \<rightharpoonup> string list"
  have none: "\<forall>k. \<not> occursAt (toLowerCase ''abc'') (toLowerCase ''z'') k"
  proof
    fix k
    have "\<not> occursAt (toLowerCase ''abc'') (toLowerCase ''z'') 0"
         "\<not> occursAt (toLowerCase ''abc'') (toLowerCase ''z'') 1"
         "\<not> occursAt (toLowerCase ''abc'') (toLowerCase ''z'') 2"
         "\<not> occursAt (toLowerCase ''abc'') (toLowerCase ''z'') 3"
      by code_simp+
    moreover have "3 < k \<Longrightarrow> \<not> occursAt (toLowerCase ''abc'') (toLowerCase ''z'') k"
      by (simp add: occursAt_def toLowerCase_def)
    ultimately show "\<not> occursAt (toLowerCase ''abc'') (toLowerCase ''z'') k"
      by (cases "3 < k") (auto simp: numeral_eq_Suc less_Suc_eq not_less le_Suc_eq)
  qed
  have m2: "?m2 1 = Some [''r0'', ''r1'', ''r2'', ''r3'', ''r4'']"
    and n2: "1 \<le> length [''r0'', ''r1'', ''r2'', ''r3'', ''r4'']" by simp_all
  have b: "pickRegionIdsForText 1 ''abc'' ''z'' ?m2 = [Some ''r2'']"
    using conjunct1[OF pickRegionIdsForText_window[of ?m2 1 "[''r0'', ''r1'', ''r2'', ''r3'', ''r4'']"
          "''abc''" "''z''", OF m2 n2]] none
    by simp
  show ?thesis using a b by simp
qed

text \<open>
  C6.  The region mapping is to return the identities at the indices from
  \<open>max 0 (L - 1)\<close> to \<open>min (N - 1) (L + 1)\<close>, a single region when the window degenerates.
  The source clamps the end of the window to \<open>N - 1\<close> but never its start: when the match
  lies more than one line below the last region (\<open>L > N\<close>) the start index \<open>L - 1\<close> is no
  index of the region list.  With one region and a match on line 2, \<open>slice\<close> selects
  nothing and the source returns the one-element array holding \<open>regionIds[1]\<close>, which is
  \<open>undefined\<close>: not the single region of the page, and no region identity at all.
\<close>

theorem pickRegionIdsForText_undefined_entry:
  "occursAt (toLowerCase [newline, newline, CHR ''q'']) (toLowerCase ''q'') 2 \<and>
   \<not> occursAt (toLowerCase [newline, newline, CHR ''q'']) (toLowerCase ''q'') 0 \<and>
   \<not> occursAt (toLowerCase [newline, newline, CHR ''q'']) (toLowerCase ''q'') 1 \<and>
   lineOfOffset [newline, newline, CHR ''q''] 2 = 2 \<and>
   pickRegionIdsForText 1 [newline, newline, CHR ''q''] ''q'' [1 \<mapsto> [''r0'']] = [None] \<and>
   pickRegionIdsForText 1 [newline, newline, CHR ''q''] ''q'' [1 \<mapsto> [''r0'']]
     \<noteq> map Some (slice [''r0''] (max 0 (2 - 1)) (min (1 - 1) (2 + 1) + 1)) \<and>
   pickRegionIdsForText 1 [newline, newline, CHR ''q''] ''q'' [1 \<mapsto> [''r0'']] \<noteq> [Some ''r0'']"
  by code_simp

section \<open>Sorting and line clustering\<close>

lemma insertBy_length: "length (insertBy cmp a xs) = Suc (length xs)"
  by (induction xs) auto

lemma insertBy_mset: "mset (insertBy cmp a xs) = add_mset a (mset xs)"
  by (induction xs) auto

lemma sortBy_mset: "mset (sortBy cmp xs) = mset xs"
  by (induction xs) (auto simp: sortBy_def insertBy_mset)

lemma sortBy_length: "length (sortBy cmp xs) = length xs"
  by (metis sortBy_mset size_mset)

lemma sortBy_set: "set (sortBy cmp xs) = set xs"
  by (metis sortBy_mset set_mset_mset)

lemma te_items_length: "length (te_items rs) \<le> length rs"
  by (induction rs) (auto split: option.splits prod.splits)

lemma te_compare_trans:
  "te_compare a b \<le> 0 \<Longrightarrow> te_compare b c \<le> 0 \<Longrightarrow> te_compare a c \<le> 0"
  by (auto simp: te_compare_def split: if_splits)

lemma te_compare_total: "te_compare a b \<le> 0 \<or> te_compare b a \<le> 0"
  by (auto simp: te_compare_def)

lemma insertBy_sorted:
  assumes "sorted_wrt (\<lambda>a b. te_compare a b \<le> 0) xs"
  shows "sorted_wrt (\<lambda>a b. te_compare a b \<le> 0) (insertBy te_compare a xs)"
  using assms
proof (induction xs)
  case Nil
  then show ?case by simp
next
  case (Cons b bs)
  show ?case
  proof (cases "te_compare a b \<le> 0")
    case True
    then show ?thesis using Cons.prems te_compare_trans by auto
  next
    case False
    then have ba: "te_compare b a \<le> 0" using te_compare_total by blast
    have "\<forall>c \<in> set (insertBy te_compare a bs). te_compare b c \<le> 0"
      using Cons.prems ba by (auto simp: set_mset_mset[symmetric] insertBy_mset simp del: set_mset_mset)
    then show ?thesis using False Cons by auto
  qed
qed

lemma sortBy_sorted: "sorted_wrt (\<lambda>a b. te_compare a b \<le> 0) (sortBy te_compare xs)"
  by (induction xs) (auto simp: sortBy_def intro: insertBy_sorted)

lemma te_lineStep_concat:
  "concat (fst (te_lineStep thr (ls, cy) it)) = concat ls @ [it]"
proof (cases "ls = []")
  case True
  then show ?thesis by (simp add: te_lineStep_def)
next
  case False
  then have "concat (butlast ls) @ last ls = concat ls"
    by (metis append_butlast_last_id concat.simps concat_append append_Nil2)
  then show ?thesis using False by (auto simp: te_lineStep_def Let_def)
qed

lemma te_lineStep_nonempty:
  "[] \<notin> set ls \<Longrightarrow> [] \<notin> set (fst (te_lineStep thr (ls, cy) it))"
  by (auto simp: te_lineStep_def Let_def dest: in_set_butlastD)

lemma te_foldl_concat:
  "concat (fst (foldl (te_lineStep thr) (ls, cy) items)) = concat ls @ items"
proof (induction items arbitrary: ls cy)
  case Nil
  then show ?case by simp
next
  case (Cons it items)
  obtain ls' cy' where st: "te_lineStep thr (ls, cy) it = (ls', cy')" by (cases "te_lineStep thr (ls, cy) it")
  have "concat ls' = concat ls @ [it]" using te_lineStep_concat[of thr ls cy it] st by simp
  then show ?case using Cons.IH[of ls' cy'] st by simp
qed

lemma te_foldl_nonempty:
  "[] \<notin> set ls \<Longrightarrow> [] \<notin> set (fst (foldl (te_lineStep thr) (ls, cy) items))"
proof (induction items arbitrary: ls cy)
  case Nil
  then show ?case by simp
next
  case (Cons it items)
  obtain ls' cy' where st: "te_lineStep thr (ls, cy) it = (ls', cy')" by (cases "te_lineStep thr (ls, cy) it")
  have "[] \<notin> set ls'" using te_lineStep_nonempty[OF Cons.prems, of thr cy it] st by simp
  then show ?case using Cons.IH[of ls' cy'] st by simp
qed

lemma te_lines_concat: "concat (te_lines thr items) = items"
  using te_foldl_concat[of thr "[]" 0 items] by (simp add: te_lines_def)

lemma te_lines_nonempty: "[] \<notin> set (te_lines thr items)"
  using te_foldl_nonempty[of "[]" thr 0 items] by (simp add: te_lines_def)

lemma length_le_concat: "[] \<notin> set ls \<Longrightarrow> length ls \<le> length (concat ls)"
proof (induction ls)
  case Nil
  then show ?case by simp
next
  case (Cons l ls)
  then have "1 \<le> length l" by (cases l) auto
  then show ?case using Cons by auto
qed

lemma te_segments_length: "length (te_segments ls) \<le> length ls"
  by (induction ls) (auto simp: Let_def)

lemma te_segments_eq:
  "te_segments ls = filter (\<lambda>s. s \<noteq> []) (map (\<lambda>l. trim (concat (map tk_text l))) ls)"
  by (induction ls) (auto simp: Let_def trim_def)

lemma filter_dropWhile_ws:
  "filter (\<lambda>c. \<not> isWhiteSpace c) (dropWhile isWhiteSpace s) = filter (\<lambda>c. \<not> isWhiteSpace c) s"
  by (induction s) auto

lemma filter_trim: "filter (\<lambda>c. \<not> isWhiteSpace c) (trim s) = filter (\<lambda>c. \<not> isWhiteSpace c) s"
  by (simp add: trim_def filter_dropWhile_ws flip: rev_filter)

lemma te_segments_content:
  "filter (\<lambda>c. \<not> isWhiteSpace c) (concat (te_segments ls))
     = filter (\<lambda>c. \<not> isWhiteSpace c) (concat (map tk_text (concat ls)))"
proof (induction ls)
  case Nil
  then show ?case by simp
next
  case (Cons l ls)
  have "trim (concat (map tk_text l)) = [] \<Longrightarrow>
          filter (\<lambda>c. \<not> isWhiteSpace c) (concat (map tk_text l)) = []"
    using filter_trim[of "concat (map tk_text l)"] by simp
  then show ?case using Cons filter_trim[of "concat (map tk_text l)"]
    by (auto simp: Let_def)
qed

text \<open>
  C9, amended.  A page yields at most as many lines as it has tokens.  The lines are the
  trimmed concatenations of consecutive runs of the tokens in reading order (\<open>y\<close>
  descending, then \<open>x\<close> ascending), runs that trim to nothing being dropped: the
  concatenated line texts hold exactly the characters of the tokens that are not white
  space, in reading order.
\<close>

theorem te_lines_keep_visible_text:
  "length (te_pageSegments page) \<le> length (te_items (content_items page)) \<and>
   length (te_items (content_items page)) \<le> length (content_items page) \<and>
   mset (sortBy te_compare (te_items (content_items page))) = mset (te_items (content_items page)) \<and>
   sorted_wrt (\<lambda>a b. tk_y b < tk_y a \<or> (tk_y a = tk_y b \<and> tk_x a \<le> tk_x b))
     (sortBy te_compare (te_items (content_items page))) \<and>
   (\<exists>lines. concat lines = sortBy te_compare (te_items (content_items page)) \<and>
      te_pageSegments page
        = filter (\<lambda>s. s \<noteq> []) (map (\<lambda>l. trim (concat (map tk_text l))) lines)) \<and>
   filter (\<lambda>c. \<not> isWhiteSpace c) (concat (te_pageSegments page))
     = filter (\<lambda>c. \<not> isWhiteSpace c)
         (concat (map tk_text (sortBy te_compare (te_items (content_items page)))))"
proof -
  let ?items = "sortBy te_compare (te_items (content_items page))"
  let ?thr = "(if viewport_height page = 0 then 1 else viewport_height page) * (12 / 1000)"
  have seg: "te_pageSegments page = te_segments (te_lines ?thr ?items)"
    by (simp add: te_pageSegments_def Let_def)
  have "length (te_pageSegments page) \<le> length (te_lines ?thr ?items)"
    unfolding seg by (rule te_segments_length)
  also have "\<dots> \<le> length (concat (te_lines ?thr ?items))"
    by (rule length_le_concat) (rule te_lines_nonempty)
  also have "\<dots> = length (te_items (content_items page))"
    by (simp add: te_lines_concat sortBy_length)
  finally have count: "length (te_pageSegments page) \<le> length (te_items (content_items page))" .
  have order: "sorted_wrt (\<lambda>a b. tk_y b < tk_y a \<or> (tk_y a = tk_y b \<and> tk_x a \<le> tk_x b)) ?items"
    by (rule sorted_wrt_mono_rel[OF _ sortBy_sorted]) (auto simp: te_compare_def split: if_splits)
  have runs: "\<exists>lines. concat lines = ?items \<and>
      te_pageSegments page
        = filter (\<lambda>s. s \<noteq> []) (map (\<lambda>l. trim (concat (map tk_text l))) lines)"
    unfolding seg using te_lines_concat te_segments_eq by blast
  have content: "filter (\<lambda>c. \<not> isWhiteSpace c) (concat (te_pageSegments page))
     = filter (\<lambda>c. \<not> isWhiteSpace c) (concat (map tk_text ?items))"
    unfolding seg by (simp add: te_segments_content te_lines_concat)
  show ?thesis using count te_items_length order runs content by (simp add: sortBy_mset)
qed

text \<open>
  C9 as stated fails: the one token \<open>'' a''\<close> gives the line \<open>''a''\<close>, so the concatenated
  line texts differ from the concatenated token texts by the white space that \<open>trim\<close>
  removed.
\<close>

theorem te_lines_keep_text_counterexample:
  "concat (te_pageSegments padded_page) = ''a'' \<and>
   concat (map tk_text (sortBy te_compare (te_items (content_items padded_page)))) = '' a'' \<and>
   concat (te_pageSegments padded_page)
     \<noteq> concat (map tk_text (sortBy te_compare (te_items (content_items padded_page))))"
  by code_simp

section \<open>The text extractor and the layout analyzer in lockstep\<close>

text \<open>
  The bound from which a sum rounds to infinity, \<open>2 ^ 1024 - 2 ^ 970\<close>, and the width of
  the overflowing sample token, \<open>2 ^ 1023\<close>.
\<close>

lemma overflowBound_power: "overflowBound = 2 ^ 1024 - 2 ^ 970"
  by (simp add: overflowBound_def)

lemma two_to_1023_power: "two_to_1023 = 2 ^ 1023"
  by (simp add: two_to_1023_def)




















section \<open>Normalized bounding boxes\<close>










section \<open>Stage handlers and the loop of \<open>runTask\<close>\<close>

lemma updateTaskStage_task:
  "fst (updateTaskStage env task st pr p)
     = task\<lparr>stage := st, progress := pr, updatedAt := dateNow env (taskId task) st\<rparr>"
  by (simp add: updateTaskStage_def Let_def)

lemma updateTaskStage_pipeline:
  "snd (updateTaskStage env task st pr p)
     = p\<lparr>tasks := (tasks p)(taskId task \<mapsto> fst (updateTaskStage env task st pr p)),
         emitted := emitted p @ [\<lparr>ev_taskId = taskId task, ev_stage = st, ev_progress = pr,
                                  ev_message = None\<rparr>]\<rparr>"
  by (simp add: updateTaskStage_def Let_def updateStage_def emit_def)

lemma updateTaskStage_touches: "touchesOnly task p (updateTaskStage env task st pr p)"
  by (simp add: touchesOnly_def updateTaskStage_task updateTaskStage_pipeline)

lemma touchesOnly_trans:
  assumes "touchesOnly task p (task1, p1)" and "touchesOnly task1 p1 s"
  shows "touchesOnly task p s"
proof -
  have k: "taskId task1 = taskId task" using assms(1) by (simp add: touchesOnly_def)
  have a: "tasks p1 = (tasks p)(taskId task := tasks p1 (taskId task))"
    using assms(1) by (simp add: touchesOnly_def)
  have b: "tasks (snd s) = (tasks p1)(taskId task := tasks (snd s) (taskId task))"
    using assms(2) k by (simp add: touchesOnly_def)
  have "tasks (snd s) = (tasks p)(taskId task := tasks (snd s) (taskId task))"
    by (subst b, subst a) simp
  then show ?thesis using assms k by (simp add: touchesOnly_def)
qed

lemma extractText_like: "handlerLike extractText"
  by (auto simp: handlerLike_def extractText_def touchesOnly_def Let_def split: sum.splits)

lemma layoutAnalysis_like: "handlerLike layoutAnalysis"
  by (auto simp: handlerLike_def layoutAnalysis_def touchesOnly_def Let_def
      split: sum.splits option.splits)

lemma writeDatabase_like: "handlerLike writeDatabase"
  by (auto simp: handlerLike_def writeDatabase_def touchesOnly_def Let_def
      split: sum.splits option.splits)

lemma emit_fields [simp]:
  "queue (emit tid st pr msg p) = queue p"
  "running (emit tid st pr msg p) = running p"
  "tasks (emit tid st pr msg p) = tasks p"
  by (simp_all add: emit_def)

lemma embedPages_pipeline:
  "queue (snd (embedPages env tid n i pages acc p)) = queue p \<and>
   running (snd (embedPages env tid n i pages acc p)) = running p \<and>
   tasks (snd (embedPages env tid n i pages acc p)) = tasks p"
proof (induction pages arbitrary: i acc p)
  case Nil
  then show ?case by simp
next
  case (Cons page rest)
  show ?case
    by (cases "embeddingsCreate env (if length (tp_text page) > 8000
                 then slice (tp_text page) 0 8000 else tp_text page)")
       (simp_all add: Let_def Cons.IH)
qed

lemma generateTextEmbeddings_unfold:
  assumes "textPages (metaOf task) = Some pages" "pages \<noteq> []" "OPENAI_API_KEY env"
  shows "generateTextEmbeddings env task p =
     (let r = embedPages env (taskId task) (length pages) 0 pages [] p in
      case fst r of
        None \<Rightarrow> Done (task, snd r)
      | Some embeddings \<Rightarrow>
          Done (task\<lparr>meta := Some ((metaOf task)\<lparr>textEmbeddings := Some embeddings\<rparr>)\<rparr>,
                (snd r)\<lparr>tasks := (tasks (snd r))(taskId task \<mapsto>
                   task\<lparr>meta := Some ((metaOf task)\<lparr>textEmbeddings := Some embeddings\<rparr>)\<rparr>)\<rparr>))"
  using assms
  by (cases "embedPages env (taskId task) (length pages) 0 pages [] p")
     (simp add: generateTextEmbeddings_def Let_def split: option.splits)

lemma generateTextEmbeddings_skip:
  assumes "textPages (metaOf task) = None \<or> textPages (metaOf task) = Some [] \<or> \<not> OPENAI_API_KEY env"
  shows "generateTextEmbeddings env task p = Done (task, p)"
  using assms by (auto simp: generateTextEmbeddings_def split: option.splits)

lemma embedPages_result:
  "fst (embedPages env tid n i pages acc p) = fst (embedPages env tid n i pages acc q)"
proof (induction pages arbitrary: i acc p q)
  case Nil
  then show ?case by simp
next
  case (Cons page rest)
  show ?case
    by (cases "embeddingsCreate env (if length (tp_text page) > 8000
                 then slice (tp_text page) 0 8000 else tp_text page)")
       (simp_all add: Let_def Cons.IH)
qed

lemma generateTextEmbeddings_like: "handlerLike generateTextEmbeddings"
  unfolding handlerLike_def
proof (intro allI)
  fix env task p
  show "touchesOnly task p (finalState (generateTextEmbeddings env task p)) \<and>
        fst (finalState (generateTextEmbeddings env task p))
          = task\<lparr>meta := meta (fst (finalState (generateTextEmbeddings env task p)))\<rparr> \<and>
        (raised (generateTextEmbeddings env task p) \<noteq> None \<longrightarrow>
           fst (finalState (generateTextEmbeddings env task p)) = task) \<and>
        (\<forall>q. map_outcome fst (generateTextEmbeddings env task q)
           = map_outcome fst (generateTextEmbeddings env task p))"
  proof (cases "textPages (metaOf task) = None \<or> textPages (metaOf task) = Some []
                \<or> \<not> OPENAI_API_KEY env")
    case True
    then show ?thesis by (simp add: generateTextEmbeddings_skip touchesOnly_def)
  next
    case False
    then obtain pages where pg: "textPages (metaOf task) = Some pages" "pages \<noteq> []"
        "OPENAI_API_KEY env" by auto
    have same: "fst (embedPages env (taskId task) (length pages) 0 pages [] q)
        = fst (embedPages env (taskId task) (length pages) 0 pages [] p)" for q
      by (rule embedPages_result)
    show ?thesis
      using embedPages_pipeline[of env "taskId task" "length pages" 0 pages "[]" p] same
      by (cases "fst (embedPages env (taskId task) (length pages) 0 pages [] p)")
         (simp_all add: generateTextEmbeddings_unfold[OF pg] Let_def touchesOnly_def)
  qed
qed

lemma stages_like: "list_all (\<lambda>sh. handlerLike (snd sh)) stages"
  by (simp add: stages_def extractText_like layoutAnalysis_like generateTextEmbeddings_like
      writeDatabase_like)

lemma handlerLike_touches:
  "handlerLike h \<Longrightarrow> touchesOnly task p (finalState (h env task p))"
  by (simp add: handlerLike_def)

lemma handlerLike_Done:
  "handlerLike h \<Longrightarrow> h env task p = Done (task', p') \<Longrightarrow> task' = task\<lparr>meta := meta task'\<rparr>"
  unfolding handlerLike_def by (metis finalState.simps(1) fst_conv)

lemma handlerLike_Threw:
  "handlerLike h \<Longrightarrow> h env task p = Threw err (task', p') \<Longrightarrow> task' = task"
  unfolding handlerLike_def by (metis finalState.simps(2) fst_conv option.distinct(1) raised.simps(2))

lemma handlerLike_same:
  "handlerLike h \<Longrightarrow> map_outcome fst (h env task q) = map_outcome fst (h env task p)"
  by (simp add: handlerLike_def)

lemma updateTaskStage_same:
  "fst (updateTaskStage env task st pr q) = fst (updateTaskStage env task st pr p)"
  by (simp add: updateTaskStage_task)

lemma runStages_touches:
  "list_all (\<lambda>sh. handlerLike (snd sh)) hs \<Longrightarrow>
   touchesOnly task p (finalState (runStages env hs i n task p))"
proof (induction hs arbitrary: i task p)
  case Nil
  then show ?case by (simp add: touchesOnly_def)
next
  case (Cons sh rest)
  obtain st h where sh: "sh = (st, h)" by (cases sh)
  obtain task1 p1 where u: "updateTaskStage env task st ((of_nat i / of_nat n) * 100) p = (task1, p1)"
    by (cases "updateTaskStage env task st ((of_nat i / of_nat n) * 100) p")
  have t1: "touchesOnly task p (task1, p1)" using updateTaskStage_touches[of task p env st] u by metis
  have hl: "handlerLike h" and rl: "list_all (\<lambda>sh. handlerLike (snd sh)) rest"
    using Cons.prems sh by auto
  have t2: "touchesOnly task1 p1 (finalState (h env task1 p1))" by (rule handlerLike_touches[OF hl])
  show ?case
  proof (cases "h env task1 p1")
    case (Done s)
    obtain task2 p2 where s: "s = (task2, p2)" by (cases s)
    have "touchesOnly task p (task2, p2)" using touchesOnly_trans[OF t1] t2 Done s by simp
    then have "touchesOnly task p (finalState (runStages env rest (i + 1) n task2 p2))"
      using touchesOnly_trans Cons.IH[OF rl, of task2 p2 "i + 1"] by blast
    then show ?thesis using sh u Done s by simp
  next
    case (Threw err s)
    then show ?thesis using sh u t2 touchesOnly_trans[OF t1] by simp
  qed
qed

lemma runStages_same:
  "list_all (\<lambda>sh. handlerLike (snd sh)) hs \<Longrightarrow>
   map_outcome fst (runStages env hs i n task q) = map_outcome fst (runStages env hs i n task p)"
proof (induction hs arbitrary: i task p q)
  case Nil
  then show ?case by simp
next
  case (Cons sh rest)
  obtain st h where sh: "sh = (st, h)" by (cases sh)
  obtain task1 p1 where u: "updateTaskStage env task st ((of_nat i / of_nat n) * 100) p = (task1, p1)"
    by (cases "updateTaskStage env task st ((of_nat i / of_nat n) * 100) p")
  obtain task1' q1 where v: "updateTaskStage env task st ((of_nat i / of_nat n) * 100) q = (task1', q1)"
    by (cases "updateTaskStage env task st ((of_nat i / of_nat n) * 100) q")
  have eq: "task1' = task1" using updateTaskStage_same[of env task st "(of_nat i / of_nat n) * 100" q p]
    unfolding u v by simp
  have hl: "handlerLike h" and rl: "list_all (\<lambda>sh. handlerLike (snd sh)) rest"
    using Cons.prems sh by auto
  have hs: "map_outcome fst (h env task1 q1) = map_outcome fst (h env task1 p1)"
    by (rule handlerLike_same[OF hl])
  show ?case
  proof (cases "h env task1 p1")
    case (Done s)
    obtain task2 p2 where s: "s = (task2, p2)" by (cases s)
    obtain q2 where dq: "h env task1 q1 = Done (task2, q2)"
      using hs Done s by (cases "h env task1 q1") auto
    show ?thesis using sh u v eq Done s dq Cons.IH[OF rl, of "i + 1" task2 q2 p2] by simp
  next
    case (Threw err s)
    obtain task2 p2 where s: "s = (task2, p2)" by (cases s)
    obtain q2 where dq: "h env task1 q1 = Threw err (task2, q2)"
      using hs Threw s by (cases "h env task1 q1") auto
    show ?thesis using sh u v eq Threw s dq by simp
  qed
qed

lemma raised_map: "raised (map_outcome f out) = raised out"
  by (cases out) auto

lemma finalState_map: "finalState (map_outcome f out) = f (finalState out)"
  by (cases out) auto

lemma runStages_Threw:
  "list_all (\<lambda>sh. handlerLike (snd sh)) hs \<Longrightarrow>
   runStages env hs i n task p = Threw err (task1, p1) \<Longrightarrow>
   \<exists>j<length hs. task1 = task\<lparr>stage := fst (hs ! j),
                               progress := (of_nat (i + j) / of_nat n) * 100,
                               updatedAt := dateNow env (taskId task) (fst (hs ! j)),
                               meta := meta task1\<rparr>"
proof (induction hs arbitrary: i task p)
  case Nil
  then show ?case by simp
next
  case (Cons sh rest)
  obtain st h where sh: "sh = (st, h)" by (cases sh)
  obtain taska pa where u: "updateTaskStage env task st ((of_nat i / of_nat n) * 100) p = (taska, pa)"
    by (cases "updateTaskStage env task st ((of_nat i / of_nat n) * 100) p")
  have ta: "taska = task\<lparr>stage := st, progress := (of_nat i / of_nat n) * 100,
                          updatedAt := dateNow env (taskId task) st\<rparr>"
    using updateTaskStage_task[of env task st "(of_nat i / of_nat n) * 100" p]
    unfolding u by simp
  have hl: "handlerLike h" and rl: "list_all (\<lambda>sh. handlerLike (snd sh)) rest"
    using Cons.prems sh by auto
  show ?case
  proof (cases "h env taska pa")
    case (Done s)
    obtain task2 p2 where s: "s = (task2, p2)" by (cases s)
    have t2: "task2 = taska\<lparr>meta := meta task2\<rparr>" using handlerLike_Done[OF hl] Done s by blast
    have "runStages env rest (i + 1) n task2 p2 = Threw err (task1, p1)"
      using Cons.prems(2) sh u Done s by simp
    from Cons.IH[OF rl this] obtain j where j: "j < length rest"
      "task1 = task2\<lparr>stage := fst (rest ! j),
                      progress := (of_nat (i + 1 + j) / of_nat n) * 100,
                      updatedAt := dateNow env (taskId task2) (fst (rest ! j)),
                      meta := meta task1\<rparr>" by blast
    have t2': "task2 = task\<lparr>stage := st, progress := (of_nat i / of_nat n) * 100,
                            updatedAt := dateNow env (taskId task) st, meta := meta task2\<rparr>"
      using t2 unfolding ta by simp
    have id2: "taskId task2 = taskId task"
      using arg_cong[OF t2', of taskId] by simp
    have "task2\<lparr>stage := fst (rest ! j),
                 progress := (of_nat (i + 1 + j) / of_nat n) * 100,
                 updatedAt := dateNow env (taskId task) (fst (rest ! j)),
                 meta := meta task1\<rparr>
          = task\<lparr>stage := fst (rest ! j),
                 progress := (of_nat (i + 1 + j) / of_nat n) * 100,
                 updatedAt := dateNow env (taskId task) (fst (rest ! j)),
                 meta := meta task1\<rparr>"
      using arg_cong[OF t2', of "\<lambda>t. t\<lparr>stage := fst (rest ! j),
                 progress := (of_nat (i + 1 + j) / of_nat n) * 100,
                 updatedAt := dateNow env (taskId task) (fst (rest ! j)),
                 meta := meta task1\<rparr>"] by simp
    then have "task1 = task\<lparr>stage := fst ((sh # rest) ! Suc j),
                        progress := (of_nat (i + Suc j) / of_nat n) * 100,
                        updatedAt := dateNow env (taskId task) (fst ((sh # rest) ! Suc j)),
                        meta := meta task1\<rparr>"
      using j(2) id2 by simp
    then show ?thesis using j(1) by (intro exI[of _ "Suc j"]) simp
  next
    case (Threw err' s)
    then have "task1 = taska" using handlerLike_Threw[OF hl, of env taska pa] Cons.prems(2) sh u
      by (cases s) auto
    then show ?thesis using ta sh by (intro exI[of _ 0]) simp
  qed
qed

lemma runStages_Done:
  "list_all (\<lambda>sh. handlerLike (snd sh)) hs \<Longrightarrow>
   runStages env hs i n task p = Done (task1, p1) \<Longrightarrow> error task1 = error task"
proof (induction hs arbitrary: i task p)
  case Nil
  then show ?case by simp
next
  case (Cons sh rest)
  obtain st h where sh: "sh = (st, h)" by (cases sh)
  obtain taska pa where u: "updateTaskStage env task st ((of_nat i / of_nat n) * 100) p = (taska, pa)"
    by (cases "updateTaskStage env task st ((of_nat i / of_nat n) * 100) p")
  have ta: "error taska = error task"
    using updateTaskStage_task[of env task st "(of_nat i / of_nat n) * 100" p]
    unfolding u by simp
  have hl: "handlerLike h" and rl: "list_all (\<lambda>sh. handlerLike (snd sh)) rest"
    using Cons.prems sh by auto
  show ?case
  proof (cases "h env taska pa")
    case (Done s)
    obtain task2 p2 where s: "s = (task2, p2)" by (cases s)
    have "task2 = taska\<lparr>meta := meta task2\<rparr>" using handlerLike_Done[OF hl] Done s by blast
    then have "error task2 = error (taska\<lparr>meta := meta task2\<rparr>)" by simp
    then have "error task2 = error task" using ta by simp
    moreover have "runStages env rest (i + 1) n task2 p2 = Done (task1, p1)"
      using Cons.prems(2) sh u Done s by simp
    ultimately show ?thesis using Cons.IH[OF rl] by simp
  next
    case (Threw err' s)
    then show ?thesis using Cons.prems(2) sh u by simp
  qed
qed

section \<open>\<open>runTask\<close> and the queue driver\<close>

lemma touchesOnly_cong:
  "taskId a = taskId b \<Longrightarrow> touchesOnly a p s = touchesOnly b p s"
  by (simp add: touchesOnly_def)

lemma runTask_Done: "\<exists>task' p'. runTask env task p = Done (task', p')"
proof (cases "runStages env stages 0 (length stages) task p")
  case (Done s)
  then show ?thesis
    by (cases s; cases "updateTaskStage env (fst s) Completed 100 (snd s)")
       (auto simp: runTask_def)
next
  case (Threw err s)
  then show ?thesis
    by (cases s; cases "updateTaskStage env ((fst s)\<lparr>error := Some err\<rparr>) Failed
                          (progress (fst s)) (snd s)")
       (auto simp: runTask_def Let_def)
qed

lemma runTask_touches: "touchesOnly task p (finalState (runTask env task p))"
proof -
  obtain task1 p1 where f: "finalState (runStages env stages 0 (length stages) task p) = (task1, p1)"
    by (cases "finalState (runStages env stages 0 (length stages) task p)")
  have t1: "touchesOnly task p (task1, p1)"
    using runStages_touches[OF stages_like, of task p env 0 "length stages"] f by simp
  show ?thesis
  proof (cases "runStages env stages 0 (length stages) task p")
    case (Done s)
    then have "finalState (runTask env task p) = updateTaskStage env task1 Completed 100 p1"
      using f by (simp add: runTask_def)
    then show ?thesis
      using touchesOnly_trans[OF t1 updateTaskStage_touches] by simp
  next
    case (Threw err s)
    then have "finalState (runTask env task p)
        = updateTaskStage env (task1\<lparr>error := Some err\<rparr>) Failed
            (progress (task1\<lparr>error := Some err\<rparr>)) p1"
      using f by (simp add: runTask_def Let_def)
    moreover have "touchesOnly task1 p1 (updateTaskStage env (task1\<lparr>error := Some err\<rparr>) Failed
            (progress (task1\<lparr>error := Some err\<rparr>)) p1)"
      using updateTaskStage_touches[of "task1\<lparr>error := Some err\<rparr>" p1 env Failed]
        touchesOnly_cong[of "task1\<lparr>error := Some err\<rparr>" task1] by simp
    ultimately show ?thesis using touchesOnly_trans[OF t1] by simp
  qed
qed

lemma updateTaskStage_stored:
  "updateTaskStage env task st pr p = (task', p') \<Longrightarrow> tasks p' (taskId task) = Some task'"
  using updateTaskStage_task[of env task st pr p] updateTaskStage_pipeline[of env task st pr p]
  by simp

lemma runTask_stored:
  assumes "runTask env task p = Done (task', p')"
  shows "tasks p' (taskId task) = Some task'"
proof -
  obtain task1 p1 where f: "finalState (runStages env stages 0 (length stages) task p) = (task1, p1)"
    by (cases "finalState (runStages env stages 0 (length stages) task p)")
  have "touchesOnly task p (task1, p1)"
    using runStages_touches[OF stages_like, of task p env 0 "length stages"] f by simp
  then have id1: "taskId task1 = taskId task" by (simp add: touchesOnly_def)
  show ?thesis
  proof (cases "runStages env stages 0 (length stages) task p")
    case (Done s)
    then have "updateTaskStage env task1 Completed 100 p1 = (task', p')"
      using f assms by (simp add: runTask_def)
    then show ?thesis using updateTaskStage_stored id1 by metis
  next
    case (Threw err s)
    then have "updateTaskStage env (task1\<lparr>error := Some err\<rparr>) Failed
            (progress (task1\<lparr>error := Some err\<rparr>)) p1 = (task', p')"
      using f assms by (simp add: runTask_def Let_def)
    then have "tasks p' (taskId (task1\<lparr>error := Some err\<rparr>)) = Some task'"
      by (rule updateTaskStage_stored)
    then show ?thesis using id1 by simp
  qed
qed

lemma runStages_raised:
  "raised (runStages env stages 0 (length stages) task p) = raisedBy env task"
  using arg_cong[OF runStages_same[OF stages_like, of env 0 "length stages" task p idle], of raised]
  by (simp add: raised_map raisedBy_def)

lemma runStages_taskOf:
  "fst (finalState (runStages env stages 0 (length stages) task q))
     = fst (finalState (runStages env stages 0 (length stages) task p))"
  using arg_cong[OF runStages_same[OF stages_like, of env 0 "length stages" task q p], of finalState]
  by (simp add: finalState_map)

lemma runTask_taskOf:
  "taskOf (runTask env task p) =
     (case raisedBy env task of
        None \<Rightarrow>
          (fst (finalState (runStages env stages 0 (length stages) task idle)))
            \<lparr>stage := Completed, progress := 100,
             updatedAt := dateNow env (taskId task) Completed\<rparr>
      | Some err \<Rightarrow>
          (fst (finalState (runStages env stages 0 (length stages) task idle)))
            \<lparr>stage := Failed, error := Some err,
             updatedAt := dateNow env (taskId task) Failed\<rparr>)"
proof -
  obtain task1 p1 where f: "finalState (runStages env stages 0 (length stages) task p) = (task1, p1)"
    by (cases "finalState (runStages env stages 0 (length stages) task p)")
  have "touchesOnly task p (task1, p1)"
    using runStages_touches[OF stages_like, of task p env 0 "length stages"] f by simp
  then have id1: "taskId task1 = taskId task" by (simp add: touchesOnly_def)
  have t1: "fst (finalState (runStages env stages 0 (length stages) task idle)) = task1"
    using runStages_taskOf[of env task idle p] f by simp
  show ?thesis
  proof (cases "runStages env stages 0 (length stages) task p")
    case (Done s)
    then have "raisedBy env task = None" using runStages_raised[of env task p] by simp
    then show ?thesis using Done f t1 id1
      by (simp add: runTask_def taskOf_def updateTaskStage_task)
  next
    case (Threw err s)
    then have "raisedBy env task = Some err" using runStages_raised[of env task p] by simp
    then show ?thesis using Threw f t1 id1
      by (simp add: runTask_def taskOf_def updateTaskStage_task Let_def)
  qed
qed

lemma runTask_settled: "taskOf (runTask env task p) = settled env task"
  unfolding settled_def by (simp add: runTask_taskOf)

lemma settled_stage:
  "stage (settled env task) = (case raisedBy env task of None \<Rightarrow> Completed | Some err \<Rightarrow> Failed)"
  "raisedBy env task = Some err \<Longrightarrow> error (settled env task) = Some err"
  unfolding settled_def by (simp_all add: runTask_taskOf split: option.splits)

termination runNext
proof (relation "measure (\<lambda>(env, p). length (queue p))", goal_cases)
  case 1
  then show ?case by simp
next
  case (2 env p task rest p1 s task' p2 p3)
  have s: "s = (task', p2)" using 2 by simp
  have "touchesOnly task p1 (finalState (runTask env task p1))" by (rule runTask_touches)
  then have "queue p2 = queue p1" using 2(4) s by (simp add: touchesOnly_def)
  then show ?case using 2 by simp
next
  case (3 env p task rest p1 err s task' p2 p3)
  have s: "s = (task', p2)" using 3 by simp
  have "touchesOnly task p1 (finalState (runTask env task p1))" by (rule runTask_touches)
  then have "queue p2 = queue p1" using 3(4) s by (simp add: touchesOnly_def)
  then show ?case using 3 by simp
qed

lemma runNext_drains:
  "queue p = ts \<Longrightarrow> \<not> running p \<Longrightarrow> distinct (map taskId ts) \<Longrightarrow>
   \<exists>p'. runNext env p = Done p' \<and> queue p' = [] \<and> \<not> running p' \<and>
        (\<forall>task \<in> set ts. tasks p' (taskId task) = Some (settled env task)) \<and>
        (\<forall>k. k \<notin> taskId ` set ts \<longrightarrow> tasks p' k = tasks p k)"
proof (induction ts arbitrary: p)
  case Nil
  then show ?case by (subst runNext.simps) simp
next
  case (Cons task rest)
  let ?p1 = "p\<lparr>queue := rest, running := True\<rparr>"
  obtain task' p2 where r: "runTask env task ?p1 = Done (task', p2)"
    using runTask_Done by blast
  have tch: "touchesOnly task ?p1 (task', p2)" using runTask_touches[of task ?p1 env] r by simp
  have q2: "queue p2 = rest" and k2: "\<And>k. k \<noteq> taskId task \<Longrightarrow> tasks p2 k = tasks p k"
    using tch by (auto simp: touchesOnly_def fun_eq_iff split: if_splits)
  have st: "tasks p2 (taskId task) = Some (settled env task)"
    using runTask_stored[OF r] runTask_settled[of env task ?p1] r by (simp add: taskOf_def)
  let ?p3 = "p2\<lparr>running := False\<rparr>"
  have unfold: "runNext env p = (if length (queue ?p3) > 0 then runNext env ?p3 else Done ?p3)"
    using Cons.prems r by (subst runNext.simps) (simp add: Let_def)
  show ?case
  proof (cases "rest = []")
    case True
    then show ?thesis using unfold q2 st k2 by auto
  next
    case False
    have "\<exists>p'. runNext env ?p3 = Done p' \<and> queue p' = [] \<and> \<not> running p' \<and>
        (\<forall>task \<in> set rest. tasks p' (taskId task) = Some (settled env task)) \<and>
        (\<forall>k. k \<notin> taskId ` set rest \<longrightarrow> tasks p' k = tasks ?p3 k)"
      using Cons.IH[of ?p3] q2 Cons.prems(3) by simp
    then obtain p' where p': "runNext env ?p3 = Done p'" "queue p' = []" "\<not> running p'"
        "\<forall>task \<in> set rest. tasks p' (taskId task) = Some (settled env task)"
        "\<forall>k. k \<notin> taskId ` set rest \<longrightarrow> tasks p' k = tasks ?p3 k" by blast
    have "taskId task \<notin> taskId ` set rest" using Cons.prems(3) by auto
    then have "tasks p' (taskId task) = Some (settled env task)" using p'(5) st by simp
    moreover have "\<forall>k. k \<notin> taskId ` set (task # rest) \<longrightarrow> tasks p' k = tasks p k"
      using p'(5) k2 by simp
    ultimately show ?thesis using unfold False q2 p' by auto
  qed
qed

section \<open>The events of a run\<close>

text \<open>
  After each page whose embedding request succeeds, \<open>generateTextEmbeddings\<close> emits one
  event with progress \<open>stageBaseProgress + ((index + 1) / total) * 15\<close>; the handlers emit
  nothing else, and the stages of the events of a run are those of the list in \<open>runTask\<close>
  and the two terminal ones.
\<close>

lemma embedPages_events:
  "\<exists>m \<le> length pages.
     emitted (snd (embedPages env tid n i pages acc p))
       = emitted p @
         map (\<lambda>k. \<lparr>ev_taskId = tid, ev_stage = Generating_text_embeddings,
                    ev_progress = stageBaseProgress Generating_text_embeddings
                                    + (of_nat (k + 1) / of_nat n) * 15,
                    ev_message = None\<rparr>) [i ..< i + m] \<and>
     (fst (embedPages env tid n i pages acc p) \<noteq> None \<longrightarrow> m = length pages)"
proof (induction pages arbitrary: i acc p)
  case Nil
  then show ?case by simp
next
  case (Cons page rest)
  let ?input = "if length (tp_text page) > 8000 then slice (tp_text page) 0 8000 else tp_text page"
  show ?case
  proof (cases "embeddingsCreate env ?input")
    case (Inl err)
    then show ?thesis by (intro exI[of _ 0]) (simp add: Let_def)
  next
    case (Inr response)
    let ?acc = "acc @ [\<lparr>emb_pageNumber = tp_pageNumber page, emb_text = tp_text page,
                        emb_embedding = (case response of [] \<Rightarrow> [] | e # _ \<Rightarrow> e)\<rparr>]"
    let ?p = "emit tid Generating_text_embeddings
                (stageBaseProgress Generating_text_embeddings + (of_nat (i + 1) / of_nat n) * 15)
                None p"
    have step: "embedPages env tid n i (page # rest) acc p = embedPages env tid n (i + 1) rest ?acc ?p"
      using Inr by (simp add: Let_def)
    obtain m where m: "m \<le> length rest"
      "emitted (snd (embedPages env tid n (i + 1) rest ?acc ?p))
         = emitted ?p @
           map (\<lambda>k. \<lparr>ev_taskId = tid, ev_stage = Generating_text_embeddings,
                      ev_progress = stageBaseProgress Generating_text_embeddings
                                      + (of_nat (k + 1) / of_nat n) * 15,
                      ev_message = None\<rparr>) [i + 1 ..< i + 1 + m]"
      "fst (embedPages env tid n (i + 1) rest ?acc ?p) \<noteq> None \<longrightarrow> m = length rest"
      using Cons.IH[of "i + 1" ?acc ?p] by blast
    have "[i ..< i + Suc m] = i # [i + 1 ..< i + 1 + m]"
      by (simp add: upt_rec)
    then show ?thesis
      unfolding step using m by (intro exI[of _ "Suc m"]) (simp add: emit_def)
  qed
qed

lemma embedPages_stages:
  "ev_stage ` set (emitted (snd (embedPages env tid n i pages acc p)))
     \<subseteq> ev_stage ` set (emitted p) \<union> {Generating_text_embeddings}"
proof -
  obtain m where "emitted (snd (embedPages env tid n i pages acc p))
       = emitted p @
         map (\<lambda>k. \<lparr>ev_taskId = tid, ev_stage = Generating_text_embeddings,
                    ev_progress = stageBaseProgress Generating_text_embeddings
                                    + (of_nat (k + 1) / of_nat n) * 15,
                    ev_message = None\<rparr>) [i ..< i + m]"
    using embedPages_events[of pages env tid n i acc p] by blast
  then show ?thesis by auto
qed

lemma handler_stages:
  assumes "(st, h) \<in> set stages"
  shows "ev_stage ` set (emitted (snd (finalState (h env task p))))
           \<subseteq> ev_stage ` set (emitted p) \<union> {Generating_text_embeddings}"
proof -
  consider "h = extractText" | "h = layoutAnalysis" | "h = generateTextEmbeddings"
    | "h = writeDatabase"
    using assms by (auto simp: stages_def)
  then show ?thesis
  proof cases
    case 1
    then show ?thesis by (auto simp: extractText_def Let_def split: sum.splits)
  next
    case 2
    then show ?thesis by (auto simp: layoutAnalysis_def Let_def split: sum.splits option.splits)
  next
    case 3
    show ?thesis
    proof (cases "textPages (metaOf task)")
      case None
      then show ?thesis using 3 by (auto simp: generateTextEmbeddings_def)
    next
      case (Some pages)
      show ?thesis
        using embedPages_stages[of env "taskId task" "length pages" 0 pages "[]" p] 3 Some
        by (cases "embedPages env (taskId task) (length pages) 0 pages [] p")
           (auto simp: generateTextEmbeddings_def Let_def split: option.splits)
    qed
  next
    case 4
    then show ?thesis by (auto simp: writeDatabase_def Let_def split: sum.splits option.splits)
  qed
qed

lemma updateTaskStage_stages:
  "ev_stage ` set (emitted (snd (updateTaskStage env task st pr p)))
     = ev_stage ` set (emitted p) \<union> {st}"
  by (auto simp: updateTaskStage_def Let_def updateStage_def emit_def)

lemma runStages_stages:
  "set hs \<subseteq> set stages \<Longrightarrow>
   ev_stage ` set (emitted (snd (finalState (runStages env hs i n task p))))
     \<subseteq> ev_stage ` set (emitted p) \<union> fst ` set hs \<union> {Generating_text_embeddings}"
proof (induction hs arbitrary: i task p)
  case Nil
  then show ?case by auto
next
  case (Cons sh rest)
  obtain st h where sh: "sh = (st, h)" by (cases sh)
  obtain task1 p1 where u: "updateTaskStage env task st ((of_nat i / of_nat n) * 100) p = (task1, p1)"
    by (cases "updateTaskStage env task st ((of_nat i / of_nat n) * 100) p")
  have e1: "ev_stage ` set (emitted p1) = ev_stage ` set (emitted p) \<union> {st}"
    using updateTaskStage_stages[of env task st "(of_nat i / of_nat n) * 100" p] unfolding u by simp
  have mem: "(st, h) \<in> set stages" and sub: "set rest \<subseteq> set stages" using Cons.prems sh by auto
  have e2: "ev_stage ` set (emitted (snd (finalState (h env task1 p1))))
           \<subseteq> ev_stage ` set (emitted p1) \<union> {Generating_text_embeddings}"
    by (rule handler_stages[OF mem])
  show ?case
  proof (cases "h env task1 p1")
    case (Done s)
    obtain task2 p2 where s: "s = (task2, p2)" by (cases s)
    have "ev_stage ` set (emitted (snd (finalState (runStages env rest (i + 1) n task2 p2))))
      \<subseteq> ev_stage ` set (emitted p2) \<union> fst ` set rest \<union> {Generating_text_embeddings}"
      by (rule Cons.IH[OF sub])
    moreover have "ev_stage ` set (emitted p2)
      \<subseteq> ev_stage ` set (emitted p) \<union> {st} \<union> {Generating_text_embeddings}"
      using e2 e1 Done s by simp
    ultimately show ?thesis using sh u Done s by auto
  next
    case (Threw err s)
    then show ?thesis using sh u e1 e2 by auto
  qed
qed

lemma runTask_stages:
  "ev_stage ` set (emitted (snd (finalState (runTask env task p))))
     \<subseteq> ev_stage ` set (emitted p) \<union>
        {Extracting_text, Layout_analysis, Generating_text_embeddings, Writing_database,
         Completed, Failed}"
proof -
  have rs: "ev_stage ` set (emitted (snd (finalState (runStages env stages 0 (length stages) task p))))
     \<subseteq> ev_stage ` set (emitted p) \<union> fst ` set stages \<union> {Generating_text_embeddings}"
    by (rule runStages_stages) simp
  have fs: "fst ` set stages
      = {Extracting_text, Layout_analysis, Generating_text_embeddings, Writing_database}"
    by (auto simp: stages_def)
  show ?thesis
  proof (cases "runStages env stages 0 (length stages) task p")
    case (Done s)
    then show ?thesis using rs fs
      by (cases s) (auto simp: runTask_def updateTaskStage_stages)
  next
    case (Threw err s)
    then show ?thesis using rs fs
      by (cases s) (auto simp: runTask_def Let_def updateTaskStage_stages)
  qed
qed

lemma runTask_never_image_stage:
  "Generating_image_embeddings \<notin> ev_stage ` set (emitted p) \<Longrightarrow>
   Generating_image_embeddings \<notin> ev_stage ` set (emitted (snd (finalState (runTask env task p)))) \<and>
   stage (fst (finalState (runTask env task p))) \<noteq> Generating_image_embeddings"
proof -
  assume a: "Generating_image_embeddings \<notin> ev_stage ` set (emitted p)"
  have "Generating_image_embeddings
      \<notin> ev_stage ` set (emitted (snd (finalState (runTask env task p))))"
    using runTask_stages[of env task p] a by auto
  moreover have "stage (fst (finalState (runTask env task p))) \<noteq> Generating_image_embeddings"
    by (cases "runStages env stages 0 (length stages) task p"; cases "finalState (runStages env stages 0 (length stages) task p)")
       (auto simp: runTask_def Let_def updateTaskStage_def)
  ultimately show ?thesis by simp
qed

section \<open>Failure isolation, the failure transition, and progress\<close>

text \<open>
  When each handler raises: \<open>extractText\<close> when the extraction does, \<open>layoutAnalysis\<close> when
  there are pages and the analysis raises, \<open>generateTextEmbeddings\<close> never, \<open>writeDatabase\<close>
  when there are pages and the database writes for the task it is given raise.
\<close>

lemma extractText_raised:
  "raised (extractText env task p)
     = (case extractTextFromPdf (loadForText env (sourcePath task)) of
          Inl err \<Rightarrow> Some err | Inr pages \<Rightarrow> None)"
  by (simp add: extractText_def Let_def split: sum.splits)

lemma layoutAnalysis_raised:
  "raised (layoutAnalysis env task p)
     = (case textPages (metaOf task) of
          None \<Rightarrow> None
        | Some pages \<Rightarrow>
            if pages = [] then None
            else (case analyzePdfLayout (loadForLayout env (sourcePath task))
                         (randomUUID env (taskId task)) (taskId task) of
                    Inl err \<Rightarrow> Some err | Inr pagesOfLayout \<Rightarrow> None))"
  by (simp add: layoutAnalysis_def Let_def split: sum.splits option.splits)

lemma generateTextEmbeddings_never_raises:
  "raised (generateTextEmbeddings env task p) = None"
  by (simp add: generateTextEmbeddings_def Let_def split: option.splits prod.splits)

lemma writeDatabase_raised:
  "raised (writeDatabase env task p)
     = (case textPages (metaOf task) of
          None \<Rightarrow> None
        | Some pages \<Rightarrow> if pages = [] then None else databaseWrites env task)"
  by (simp add: writeDatabase_def split: option.splits)

text \<open>
  The exception that ends the loop of \<open>runTask\<close> is the one read off the environment.
\<close>

lemma updateTaskStage_eq:
  "updateTaskStage env task st pr p
     = (task\<lparr>stage := st, progress := pr, updatedAt := dateNow env (taskId task) st\<rparr>,
        p\<lparr>tasks := (tasks p)(taskId task \<mapsto>
               task\<lparr>stage := st, progress := pr, updatedAt := dateNow env (taskId task) st\<rparr>),
          emitted := emitted p @ [\<lparr>ev_taskId = taskId task, ev_stage = st, ev_progress = pr,
                                   ev_message = None\<rparr>]\<rparr>)"
  by (simp add: updateTaskStage_def Let_def updateStage_def emit_def)

lemma metaOf_update:
  "metaOf (task\<lparr>stage := st, progress := pr, updatedAt := u\<rparr>) = metaOf task"
  "metaOf (task\<lparr>meta := Some m\<rparr>) = m"
  by (simp_all add: metaOf_def)

lemma metaOf_entered:
  "metaOf (t\<lparr>meta := Some m, stage := a, progress := b, updatedAt := c\<rparr>) = m"
  by (simp add: metaOf_def)

lemma metaOf_meta: "meta t = Some m \<Longrightarrow> metaOf t = m"
  by (simp add: metaOf_def)

lemma generateTextEmbeddings_task:
  assumes "textPages (metaOf task) = Some pages" "pages \<noteq> []"
  shows "\<exists>p'. generateTextEmbeddings env task p
           = Done (task\<lparr>meta := Some ((metaOf task)\<lparr>textEmbeddings := embeddingsFor env task pages\<rparr>)\<rparr>, p')
         \<or> (generateTextEmbeddings env task p = Done (task, p') \<and>
            embeddingsFor env task pages = textEmbeddings (metaOf task))"
proof (cases "OPENAI_API_KEY env")
  case False
  then show ?thesis using assms
    by (auto simp: metaOf_update metaOf_entered generateTextEmbeddings_def embeddingsFor_def)
next
  case True
  obtain r p' where r: "embedPages env (taskId task) (length pages) 0 pages [] p = (r, p')"
    by (cases "embedPages env (taskId task) (length pages) 0 pages [] p")
  have "fst (embedPages env (taskId task) (length pages) 0 pages [] idle) = r"
    using embedPages_result[of env "taskId task" "length pages" 0 pages "[]" idle p] r by simp
  then show ?thesis using assms True r
    by (cases r) (auto simp: metaOf_update metaOf_entered generateTextEmbeddings_def embeddingsFor_def Let_def)
qed

lemma embed_then_write:
  assumes "textPages (metaOf task3) = Some pages" "pages \<noteq> []"
  shows "raised (case generateTextEmbeddings env task3 p3 of
                   Done (task4, p4) \<Rightarrow> runStages env [(Writing_database, writeDatabase)] i n task4 p4
                 | Threw err s \<Rightarrow> Threw err s)
         = databaseWrites env
             (task3\<lparr>meta := Some ((metaOf task3)\<lparr>textEmbeddings := embeddingsFor env task3 pages\<rparr>),
                    stage := Writing_database, progress := (of_nat i / of_nat n) * 100,
                    updatedAt := dateNow env (taskId task3) Writing_database\<rparr>)"
proof -
  consider p' where "generateTextEmbeddings env task3 p3
       = Done (task3\<lparr>meta := Some ((metaOf task3)\<lparr>textEmbeddings := embeddingsFor env task3 pages\<rparr>)\<rparr>, p')"
    | p' where "generateTextEmbeddings env task3 p3 = Done (task3, p')"
        "embeddingsFor env task3 pages = textEmbeddings (metaOf task3)"
    using generateTextEmbeddings_task[OF assms, of env p3] by blast
  then show ?thesis
  proof cases
    case 1
    show ?thesis unfolding 1 using assms
      by (simp add: metaOf_update metaOf_entered updateTaskStage_eq writeDatabase_def split: option.splits)
  next
    case 2
    have "meta task3 = Some (metaOf task3)"
      using assms(1) by (cases "meta task3") (simp_all add: metaOf_def)
    then have same: "task3\<lparr>meta := Some ((metaOf task3)\<lparr>textEmbeddings := embeddingsFor env task3 pages\<rparr>)\<rparr>
        = task3"
      unfolding 2(2) by (cases task3) simp
    have "raised (case generateTextEmbeddings env task3 p3 of
                   Done (task4, p4) \<Rightarrow> runStages env [(Writing_database, writeDatabase)] i n task4 p4
                 | Threw err s \<Rightarrow> Threw err s)
         = databaseWrites env
             (task3\<lparr>stage := Writing_database, progress := (of_nat i / of_nat n) * 100,
                    updatedAt := dateNow env (taskId task3) Writing_database\<rparr>)"
      unfolding 2(1) using assms
      by (simp add: metaOf_update metaOf_entered updateTaskStage_eq writeDatabase_def split: option.splits)
    also have "task3\<lparr>stage := Writing_database, progress := (of_nat i / of_nat n) * 100,
                    updatedAt := dateNow env (taskId task3) Writing_database\<rparr>
        = (task3\<lparr>meta := Some ((metaOf task3)\<lparr>textEmbeddings := embeddingsFor env task3 pages\<rparr>)\<rparr>)
            \<lparr>stage := Writing_database, progress := (of_nat i / of_nat n) * 100,
                    updatedAt := dateNow env (taskId task3) Writing_database\<rparr>"
      unfolding same ..
    finally show ?thesis by simp
  qed
qed

lemma embeddingsFor_entered:
  "embeddingsFor env (task\<lparr>meta := Some ((metaOf task)\<lparr>textPages := a, layoutPages := b\<rparr>),
                           stage := st, progress := pr, updatedAt := u\<rparr>) pages
     = embeddingsFor env task pages"
  by (simp add: metaOf_entered embeddingsFor_def split: option.splits)

lemma raisedBy_stageFailure: "raisedBy env task = stageFailure env task"
proof (cases "extractTextFromPdf (loadForText env (sourcePath task))")
  case (Inl err)
  then show ?thesis
    by (simp add: metaOf_update metaOf_entered raisedBy_def stageFailure_def stages_def updateTaskStage_eq extractText_def)
next
  case (Inr pages)
  show ?thesis
  proof (cases "pages = []")
    case True
    then show ?thesis using Inr
      by (simp add: metaOf_update metaOf_entered raisedBy_def stageFailure_def stages_def updateTaskStage_eq extractText_def
          Let_def layoutAnalysis_def generateTextEmbeddings_def writeDatabase_def)
  next
    case False
    show ?thesis
    proof (cases "analyzePdfLayout (loadForLayout env (sourcePath task))
                    (randomUUID env (taskId task)) (taskId task)")
      case (Inl err)
      then show ?thesis using Inr False
        by (simp add: metaOf_update metaOf_entered raisedBy_def stageFailure_def stages_def updateTaskStage_eq extractText_def
            Let_def layoutAnalysis_def)
    next
      case layout: (Inr pagesOfLayout)
      show ?thesis using Inr False layout
        by (simp add: metaOf_update metaOf_entered raisedBy_def stageFailure_def stages_def updateTaskStage_eq extractText_def
            Let_def layoutAnalysis_def embed_then_write[where pages = pages]
            embeddingsFor_entered handedToWrite_def)
    qed
  qed
qed

lemma extraction_failure:
  "loadForText env (sourcePath task) = Inl err \<Longrightarrow> stageFailure env task = Some err"
  by (simp add: stageFailure_def extractTextFromPdf_def)

text \<open>
  C1.  Started on an idle pipeline whose queue holds tasks of distinct identities, the queue
  driver returns without raising, with the queue empty, after running every queued task.
  A task for which a stage handler raises (the extraction, the layout analysis of a
  task with pages, or the database writes of a task with pages and layout) is stored as
  failed with the raised message as its error, whatever the tasks before it did; a task
  for which none raises is stored as completed.  In particular a task whose file cannot
  be loaded ends failed with the error of the loader, and the tasks queued around it
  end by their own stages alone.
\<close>

theorem queue_isolates_failures:
  assumes "\<not> running p" and "distinct (map taskId (queue p))"
  shows "\<exists>p'. runNext env p = Done p' \<and> queue p' = [] \<and> \<not> running p' \<and>
           (\<forall>task \<in> set (queue p). \<exists>task'.
              tasks p' (taskId task) = Some task' \<and>
              (case stageFailure env task of
                 None \<Rightarrow> stage task' = Completed
               | Some err \<Rightarrow> stage task' = Failed \<and> error task' = Some err) \<and>
              (\<forall>err. loadForText env (sourcePath task) = Inl err \<longrightarrow>
                 stage task' = Failed \<and> error task' = Some err))"
proof -
  obtain p' where p': "runNext env p = Done p'" "queue p' = []" "\<not> running p'"
      "\<forall>task \<in> set (queue p). tasks p' (taskId task) = Some (settled env task)"
    using runNext_drains[OF refl assms, of env] by blast
  have "\<exists>task'. tasks p' (taskId task) = Some task' \<and>
              (case stageFailure env task of
                 None \<Rightarrow> stage task' = Completed
               | Some err \<Rightarrow> stage task' = Failed \<and> error task' = Some err) \<and>
              (\<forall>err. loadForText env (sourcePath task) = Inl err \<longrightarrow>
                 stage task' = Failed \<and> error task' = Some err)"
    if "task \<in> set (queue p)" for task
  proof (intro exI conjI)
    show "tasks p' (taskId task) = Some (settled env task)" using p'(4) that by blast
    show "case stageFailure env task of
            None \<Rightarrow> stage (settled env task) = Completed
          | Some err \<Rightarrow> stage (settled env task) = Failed \<and> error (settled env task) = Some err"
      using settled_stage[of env task] raisedBy_stageFailure[of env task]
      by (simp split: option.splits)
    show "\<forall>err. loadForText env (sourcePath task) = Inl err \<longrightarrow>
            stage (settled env task) = Failed \<and> error (settled env task) = Some err"
      using settled_stage[of env task] raisedBy_stageFailure[of env task]
        extraction_failure[of env task] by auto
  qed
  then show ?thesis using p' by blast
qed

lemma sample_stageFailure:
  "stageFailure sample_env task_A = None"
  "stageFailure sample_env task_B = Some ''unreadable''"
  "stageFailure sample_env task_C = None"
  "stageFailure faulty_env task_D = Some ''no layout''"
  "stageFailure faulty_env task_E = Some ''write refused''"
  "stageFailure faulty_env task_F = None"
  by code_simp+

text \<open>
  The theorem at the queue A, B, C where the file of B cannot be loaded: A and C end
  completed, B ends failed with the error of the loader.  And at the queue D, E, F where
  the layout analysis of D and the database writes of E raise: D and E end failed with
  those errors, F ends completed.
\<close>

theorem queue_isolates_failures_witness:
  "\<not> running three_queued \<and> distinct (map taskId (queue three_queued)) \<and>
   queue three_queued = [task_A, task_B, task_C] \<and>
   loadForText sample_env (sourcePath task_B) = Inl ''unreadable'' \<and>
   (\<exists>p'. runNext sample_env three_queued = Done p' \<and>
      (\<exists>a. tasks p' (taskId task_A) = Some a \<and> stage a = Completed) \<and>
      (\<exists>b. tasks p' (taskId task_B) = Some b \<and> stage b = Failed \<and> error b = Some ''unreadable'') \<and>
      (\<exists>c. tasks p' (taskId task_C) = Some c \<and> stage c = Completed)) \<and>
   \<not> running faulty_queued \<and> distinct (map taskId (queue faulty_queued)) \<and>
   queue faulty_queued = [task_D, task_E, task_F] \<and>
   (\<exists>p'. runNext faulty_env faulty_queued = Done p' \<and>
      (\<exists>d. tasks p' (taskId task_D) = Some d \<and> stage d = Failed \<and> error d = Some ''no layout'') \<and>
      (\<exists>e. tasks p' (taskId task_E) = Some e \<and> stage e = Failed \<and> error e = Some ''write refused'') \<and>
      (\<exists>f. tasks p' (taskId task_F) = Some f \<and> stage f = Completed))"
proof -
  have h1: "\<not> running three_queued" by (simp add: three_queued_def idle_def)
  have h2: "distinct (map taskId (queue three_queued))" by code_simp
  have q: "queue three_queued = [task_A, task_B, task_C]" by (simp add: three_queued_def)
  have l: "loadForText sample_env (sourcePath task_B) = Inl ''unreadable''" by code_simp
  obtain p' where p': "runNext sample_env three_queued = Done p'"
    "\<forall>task \<in> set (queue three_queued). \<exists>task'.
              tasks p' (taskId task) = Some task' \<and>
              (case stageFailure sample_env task of
                 None \<Rightarrow> stage task' = Completed
               | Some err \<Rightarrow> stage task' = Failed \<and> error task' = Some err) \<and>
              (\<forall>err. loadForText sample_env (sourcePath task) = Inl err \<longrightarrow>
                 stage task' = Failed \<and> error task' = Some err)"
    using queue_isolates_failures[OF h1 h2, of sample_env] by blast
  have a: "\<exists>a. tasks p' (taskId task_A) = Some a \<and> stage a = Completed"
    using p'(2) q sample_stageFailure(1) by fastforce
  have b: "\<exists>b. tasks p' (taskId task_B) = Some b \<and> stage b = Failed \<and> error b = Some ''unreadable''"
    using p'(2) q l by fastforce
  have c: "\<exists>c. tasks p' (taskId task_C) = Some c \<and> stage c = Completed"
    using p'(2) q sample_stageFailure(3) by fastforce
  have g1: "\<not> running faulty_queued" by (simp add: faulty_queued_def idle_def)
  have g2: "distinct (map taskId (queue faulty_queued))" by code_simp
  have r: "queue faulty_queued = [task_D, task_E, task_F]" by (simp add: faulty_queued_def)
  obtain p2 where p2: "runNext faulty_env faulty_queued = Done p2"
    "\<forall>task \<in> set (queue faulty_queued). \<exists>task'.
              tasks p2 (taskId task) = Some task' \<and>
              (case stageFailure faulty_env task of
                 None \<Rightarrow> stage task' = Completed
               | Some err \<Rightarrow> stage task' = Failed \<and> error task' = Some err) \<and>
              (\<forall>err. loadForText faulty_env (sourcePath task) = Inl err \<longrightarrow>
                 stage task' = Failed \<and> error task' = Some err)"
    using queue_isolates_failures[OF g1 g2, of faulty_env] by blast
  have d: "\<exists>d. tasks p2 (taskId task_D) = Some d \<and> stage d = Failed \<and> error d = Some ''no layout''"
    using p2(2) r sample_stageFailure(4) by fastforce
  have e: "\<exists>e. tasks p2 (taskId task_E) = Some e \<and> stage e = Failed \<and> error e = Some ''write refused''"
    using p2(2) r sample_stageFailure(5) by fastforce
  have f: "\<exists>f. tasks p2 (taskId task_F) = Some f \<and> stage f = Completed"
    using p2(2) r sample_stageFailure(6) by fastforce
  show ?thesis using h1 h2 q l p'(1) a b c g1 g2 r p2(1) d e f by blast
qed

text \<open>
  C10.  When the loop of \<open>runTask\<close> ends by the exception of a handler, the task that
  \<open>runTask\<close> leaves is the task as it was at the exception with its stage set to failed,
  its error set to the raised message and \<open>updatedAt\<close> read anew: every other field, the
  progress among them, is kept.  That progress is the entry progress of the stage that
  raised; the stored task and the last event carry it.
\<close>

theorem failure_keeps_progress:
  assumes "raised (runStages env stages 0 (length stages) task p) = Some err"
  shows "taskOf (runTask env task p)
           = (taskAtException env task p)
               \<lparr>stage := Failed, error := Some err,
                updatedAt := dateNow env (taskId task) Failed\<rparr> \<and>
         progress (taskOf (runTask env task p)) = progress (taskAtException env task p) \<and>
         (\<exists>j<length stages.
            stage (taskAtException env task p) = fst (stages ! j) \<and>
            progress (taskAtException env task p) = (of_nat j / of_nat (length stages)) * 100) \<and>
         tasks (snd (finalState (runTask env task p))) (taskId task) = Some (taskOf (runTask env task p)) \<and>
         last (emitted (snd (finalState (runTask env task p))))
           = \<lparr>ev_taskId = taskId task, ev_stage = Failed,
              ev_progress = progress (taskAtException env task p), ev_message = None\<rparr>"
proof -
  obtain s where thr: "runStages env stages 0 (length stages) task p = Threw err s"
    using assms by (cases "runStages env stages 0 (length stages) task p") auto
  obtain task1 p1 where s: "s = (task1, p1)" by (cases s)
  have t1: "taskAtException env task p = task1" using thr s by (simp add: taskAtException_def)
  obtain j where j: "j < length stages"
      "task1 = task\<lparr>stage := fst (stages ! j),
                    progress := (of_nat (0 + j) / of_nat (length stages)) * 100,
                    updatedAt := dateNow env (taskId task) (fst (stages ! j)),
                    meta := meta task1\<rparr>"
    using runStages_Threw[OF stages_like, of env 0 "length stages" task p err task1 p1] thr s
    by blast
  have id1: "taskId task1 = taskId task" using arg_cong[OF j(2), of taskId] by simp
  have st1: "stage task1 = fst (stages ! j)" using arg_cong[OF j(2), of stage] by simp
  have pr1: "progress task1 = (of_nat j / of_nat (length stages)) * 100"
    using arg_cong[OF j(2), of progress] by simp
  have run: "runTask env task p
      = Done (updateTaskStage env (task1\<lparr>error := Some err\<rparr>) Failed
                (progress (task1\<lparr>error := Some err\<rparr>)) p1)"
    using thr s by (simp add: runTask_def Let_def)
  have fin: "taskOf (runTask env task p)
      = task1\<lparr>stage := Failed, error := Some err, updatedAt := dateNow env (taskId task) Failed\<rparr>"
    unfolding run by (simp add: taskOf_def updateTaskStage_task id1)
  have stored: "tasks (snd (finalState (runTask env task p))) (taskId task)
      = Some (taskOf (runTask env task p))"
    unfolding run by (simp add: taskOf_def updateTaskStage_pipeline id1)
  have ev: "last (emitted (snd (finalState (runTask env task p))))
      = \<lparr>ev_taskId = taskId task, ev_stage = Failed, ev_progress = progress task1,
          ev_message = None\<rparr>"
    unfolding run by (simp add: updateTaskStage_pipeline id1)
  show ?thesis unfolding t1 using fin stored ev j(1) st1 pr1 by auto
qed

text \<open>The theorem at task B of the sample, whose extraction raises.\<close>

theorem failure_keeps_progress_witness:
  "raised (runStages sample_env stages 0 (length stages) task_B idle) = Some ''unreadable'' \<and>
   stage (taskOf (runTask sample_env task_B idle)) = Failed \<and>
   error (taskOf (runTask sample_env task_B idle)) = Some ''unreadable'' \<and>
   progress (taskOf (runTask sample_env task_B idle)) = progress (taskAtException sample_env task_B idle) \<and>
   stage (taskAtException sample_env task_B idle) = Extracting_text"
proof -
  have h: "raised (runStages sample_env stages 0 (length stages) task_B idle) = Some ''unreadable''"
    by code_simp
  have s: "stage (taskAtException sample_env task_B idle) = Extracting_text" by code_simp
  have "taskOf (runTask sample_env task_B idle)
           = (taskAtException sample_env task_B idle)
               \<lparr>stage := Failed, error := Some ''unreadable'',
                updatedAt := dateNow sample_env (taskId task_B) Failed\<rparr>"
    and "progress (taskOf (runTask sample_env task_B idle))
           = progress (taskAtException sample_env task_B idle)"
    using failure_keeps_progress[OF h] by blast+
  then show ?thesis using h s by simp
qed

lemma sample_events:
  "emitted (snd (finalState (runTask sample_env task_A idle))) =
     [\<lparr>ev_taskId = ''A'', ev_stage = Extracting_text, ev_progress = 0, ev_message = None\<rparr>,
      \<lparr>ev_taskId = ''A'', ev_stage = Layout_analysis, ev_progress = 25, ev_message = None\<rparr>,
      \<lparr>ev_taskId = ''A'', ev_stage = Generating_text_embeddings, ev_progress = 50, ev_message = None\<rparr>,
      \<lparr>ev_taskId = ''A'', ev_stage = Generating_text_embeddings, ev_progress = 195 / 4, ev_message = None\<rparr>,
      \<lparr>ev_taskId = ''A'', ev_stage = Generating_text_embeddings, ev_progress = 105 / 2, ev_message = None\<rparr>,
      \<lparr>ev_taskId = ''A'', ev_stage = Generating_text_embeddings, ev_progress = 225 / 4, ev_message = None\<rparr>,
      \<lparr>ev_taskId = ''A'', ev_stage = Generating_text_embeddings, ev_progress = 60, ev_message = None\<rparr>,
      \<lparr>ev_taskId = ''A'', ev_stage = Writing_database, ev_progress = 75, ev_message = None\<rparr>,
      \<lparr>ev_taskId = ''A'', ev_stage = Completed, ev_progress = 100, ev_message = None\<rparr>]"
  by code_simp

lemma sample_layout:
  "map_option length (layoutPages (metaOf (taskOf (runTask sample_env task_A idle)))) = Some 4"
  by code_simp

text \<open>
  C2 at a task of four pages with the embedding service configured: the stage
  \<open>generating_text_embeddings\<close> is entered with progress 50 (index 2 of 4 stages), and the
  event after the first page carries \<open>45 + 15/4 = 48.75\<close>: the progress of the emitted
  events decreases.
\<close>

theorem progress_events_decrease:
  "map ev_progress (emitted (snd (finalState (runTask sample_env task_A idle))))
     = [0, 25, 50, 195 / 4, 105 / 2, 225 / 4, 60, 75, 100] \<and>
   \<not> sorted (map ev_progress (emitted (snd (finalState (runTask sample_env task_A idle)))))"
  by (simp add: sample_events)

text \<open>
  C3 at a task that has layout data, with an image-embedding endpoint configured: the
  stages entered are \<open>extracting_text\<close>, \<open>layout_analysis\<close>, \<open>generating_text_embeddings\<close>,
  \<open>writing_database\<close>, \<open>completed\<close>; \<open>generating_image_embeddings\<close> is not among them.
\<close>

theorem image_stage_never_entered:
  "map_option length (layoutPages (metaOf (taskOf (runTask sample_env task_A idle)))) = Some 4 \<and>
   IMAGE_EMBEDDING_ENDPOINT sample_env \<and>
   remdups_adj (map ev_stage (emitted (snd (finalState (runTask sample_env task_A idle)))))
     = [Extracting_text, Layout_analysis, Generating_text_embeddings, Writing_database, Completed] \<and>
   Generating_image_embeddings
     \<notin> set (map ev_stage (emitted (snd (finalState (runTask sample_env task_A idle)))))"
proof -
  have "IMAGE_EMBEDDING_ENDPOINT sample_env" by (simp add: sample_env_def)
  then show ?thesis by (simp add: sample_events sample_layout)
qed

text \<open>
  C4 at the same task: the progress on entry to the stages is 0, 25, 50, 75 and 100, where
  the baselines of \<open>stageBaseProgress\<close> are 5, 25, 45, 85 and 100.
\<close>

theorem stage_entry_progress_differs:
  "zip (map ev_stage (emitted (snd (finalState (runTask sample_env task_A idle)))))
       (map ev_progress (emitted (snd (finalState (runTask sample_env task_A idle)))))
     = [(Extracting_text, 0), (Layout_analysis, 25), (Generating_text_embeddings, 50),
        (Generating_text_embeddings, 195 / 4), (Generating_text_embeddings, 105 / 2),
        (Generating_text_embeddings, 225 / 4), (Generating_text_embeddings, 60),
        (Writing_database, 75), (Completed, 100)] \<and>
   map stageBaseProgress
       [Extracting_text, Layout_analysis, Generating_text_embeddings, Writing_database, Completed]
     = [5, 25, 45, 85, 100]"
  by (simp add: sample_events stageBaseProgress_def)

section \<open>Search degrades to the literal matches\<close>

lemma textPageFindMany_db:
  "database env = Some db \<Longrightarrow>
   textPageFindMany env documentId query (of_nat n) = Inr (literalMatches db documentId query n)"
  by (simp add: textPageFindMany_def literalMatches_def Let_def)

lemma buildResults_literal:
  "database env = Some db \<Longrightarrow>
   buildResultsFromTextPages env documentId query (literalMatches db documentId query n)
     = Inr (literalResults db documentId query n)"
  by (simp add: buildResultsFromTextPages_def visualRegionFindMany_def literalResults_def Let_def)

lemma semanticSearch_literal:
  assumes "database env = Some db" and "limitOf limit = of_nat n"
    and "literalMatches db documentId query n \<noteq> []"
  shows "semanticSearch env documentId query limit = Inr (literalResults db documentId query n)"
  using assms
  by (simp add: semanticSearch_def Let_def limitOf_def[symmetric] textPageFindMany_db
      buildResults_literal)

lemma semanticSearch_fallback:
  assumes "database env = Some db" and "limitOf limit = of_nat n"
    and "literalMatches db documentId query n = []"
    and "\<not> searchApiKey env \<or> (\<exists>err. queryEmbedding env query = Inl err) \<or>
         queryEmbedding env query = Inr [] \<or> (\<exists>rest. queryEmbedding env query = Inr ([] # rest))"
  shows "semanticSearch env documentId query limit = Inr [] \<or>
         (\<exists>err. semanticSearch env documentId query limit = Inl err)"
  using assms buildResults_literal[OF assms(1), of documentId query n]
  by (auto simp: semanticSearch_def Let_def textPageFindMany_db limitOf_def[symmetric]
      literalResults_def)

text \<open>The route sends an error response exactly when the request fails the schema.\<close>

lemma searchRoute_error_iff:
  "(\<exists>err. searchRoute env req = ErrorResponse err) = (\<exists>err. schemaParse env req = Inl err)"
  by (auto simp: searchRoute_def split: sum.splits prod.splits)

text \<open>What \<open>semanticSearch\<close> raises to its caller when there is no literal match.\<close>

lemma semanticSearch_raises:
  assumes "database env = Some db" and "limitOf limit = of_nat n"
    and "literalMatches db documentId query n = []"
  shows "\<not> searchApiKey env \<Longrightarrow>
           semanticSearch env documentId query limit = Inl ''embedding_model_not_configured''"
    and "searchApiKey env \<Longrightarrow> queryEmbedding env query = Inl err \<Longrightarrow>
           semanticSearch env documentId query limit = Inl err"
  using assms
  by (simp_all add: semanticSearch_def Let_def textPageFindMany_db limitOf_def[symmetric])

text \<open>
  C7, amended.  For a request that passes the schema of the route (the id a UUID, \<open>q\<close> a
  non-empty string, the limit absent or a number from 1 to 50), the search route sends
  a list of results, never an error response.  If moreover the limit in force is a
  natural number (it is 10 when absent): when the database holds literal matches of the
  query, the results are those built from the literal matches; when it holds none, and
  the embedding backend is not configured, or the embedding request raises, or it
  returns no vector or an empty one, the results are again those of the literal
  matches, that is, the empty list.
\<close>

theorem search_degrades_to_literal_matches:
  assumes "schemaParse env req = Inr (documentId, q, limit)"
  shows "(\<exists>results. searchRoute env req = Results results) \<and>
   (\<forall>db n. database env = Some db \<and> limitOf limit = of_nat n \<and>
           literalMatches db documentId q n \<noteq> [] \<longrightarrow>
      searchRoute env req = Results (literalResults db documentId q n)) \<and>
   (\<forall>db n. database env = Some db \<and> limitOf limit = of_nat n \<and>
           literalMatches db documentId q n = [] \<and>
         (\<not> searchApiKey env \<or> (\<exists>err. queryEmbedding env q = Inl err) \<or>
          queryEmbedding env q = Inr [] \<or> (\<exists>rest. queryEmbedding env q = Inr ([] # rest))) \<longrightarrow>
      searchRoute env req = Results (literalResults db documentId q n) \<and>
      literalResults db documentId q n = [])"
proof (intro conjI allI impI)
  show "\<exists>results. searchRoute env req = Results results"
    using assms by (cases "semanticSearch env documentId q limit") (simp_all add: searchRoute_def)
next
  fix db n
  assume "database env = Some db \<and> limitOf limit = of_nat n \<and>
           literalMatches db documentId q n \<noteq> []"
  then show "searchRoute env req = Results (literalResults db documentId q n)"
    using assms by (simp add: searchRoute_def semanticSearch_literal)
next
  fix db n
  assume h: "database env = Some db \<and> limitOf limit = of_nat n \<and>
           literalMatches db documentId q n = [] \<and>
         (\<not> searchApiKey env \<or> (\<exists>err. queryEmbedding env q = Inl err) \<or>
          queryEmbedding env q = Inr [] \<or> (\<exists>rest. queryEmbedding env q = Inr ([] # rest)))"
  then show "literalResults db documentId q n = []"
    by (simp add: literalResults_def)
  then show "searchRoute env req = Results (literalResults db documentId q n)"
    using semanticSearch_fallback[of env db limit n documentId q] h assms
    by (auto simp: searchRoute_def)
qed

text \<open>
  The theorem at the sample database: a query found on page 3 only, and a query found
  nowhere, with an embedding request that raises and with one that returns no vector.
\<close>

theorem search_degrades_to_literal_matches_witness:
  "schemaParse failing_search_env (request_for ''needle'') = Inr (sample_document, ''needle'', None) \<and>
   database failing_search_env = Some sample_db \<and>
   literalMatches sample_db sample_document ''needle'' 10 \<noteq> [] \<and>
   searchRoute failing_search_env (request_for ''needle'')
     = Results [\<lparr>res_documentId = sample_document, res_pageNumber = 3,
                 res_snippet = ''a needle here'', res_regionIds = [Some ''r3'']\<rparr>] \<and>
   schemaParse failing_search_env (request_for ''nothing'') = Inr (sample_document, ''nothing'', None) \<and>
   literalMatches sample_db sample_document ''nothing'' 10 = [] \<and>
   queryEmbedding failing_search_env ''nothing'' = Inl ''request failed'' \<and>
   searchRoute failing_search_env (request_for ''nothing'') = Results [] \<and>
   schemaParse empty_search_env (request_for ''nothing'') = Inr (sample_document, ''nothing'', None) \<and>
   database empty_search_env = Some sample_db \<and>
   queryEmbedding empty_search_env ''nothing'' = Inr [] \<and>
   searchRoute empty_search_env (request_for ''nothing'') = Results []"
proof -
  have s1: "schemaParse failing_search_env (request_for ''needle'') = Inr (sample_document, ''needle'', None)"
    and s2: "schemaParse failing_search_env (request_for ''nothing'') = Inr (sample_document, ''nothing'', None)"
    and s3: "schemaParse empty_search_env (request_for ''nothing'') = Inr (sample_document, ''nothing'', None)"
    by code_simp+
  have d1: "database failing_search_env = Some sample_db"
    and d2: "database empty_search_env = Some sample_db"
    by (simp_all add: failing_search_env_def empty_search_env_def)
  have l: "limitOf None = of_nat 10" by (simp add: limitOf_def)
  have m1: "literalMatches sample_db sample_document ''needle'' 10 \<noteq> []" by code_simp
  have m2: "literalMatches sample_db sample_document ''nothing'' 10 = []" by code_simp
  have r1: "literalResults sample_db sample_document ''needle'' 10
      = [\<lparr>res_documentId = sample_document, res_pageNumber = 3, res_snippet = ''a needle here'',
          res_regionIds = [Some ''r3'']\<rparr>]" by code_simp
  have e1: "queryEmbedding failing_search_env ''nothing'' = Inl ''request failed''"
    and e2: "queryEmbedding empty_search_env ''nothing'' = Inr []"
    by (simp_all add: failing_search_env_def empty_search_env_def)
  note t1 = search_degrades_to_literal_matches[OF s1]
  note t2 = search_degrades_to_literal_matches[OF s2]
  note t3 = search_degrades_to_literal_matches[OF s3]
  have a: "searchRoute failing_search_env (request_for ''needle'')
      = Results (literalResults sample_db sample_document ''needle'' 10)"
    using t1 d1 m1 l by blast
  have b: "searchRoute failing_search_env (request_for ''nothing'') = Results []"
    using t2 d1 m2 e1 l by metis
  have c: "searchRoute empty_search_env (request_for ''nothing'') = Results []"
    using t3 d2 m2 e2 l by metis
  show ?thesis using s1 s2 s3 d1 d2 m1 m2 e1 e2 a b c unfolding r1 by simp
qed

text \<open>
  C7 as stated fails.  The schema is parsed before the \<open>try\<close> of the handler: a request
  with an empty \<open>q\<close>, with an id that is not a UUID or with a limit of 51 is answered with
  an error response.  And \<open>semanticSearch\<close> itself raises to its caller when the embedding
  request fails; it is the \<open>catch\<close> of the route that answers with an empty list.
\<close>

theorem search_error_response_counterexample:
  "semanticSearch failing_search_env sample_document ''nothing'' None = Inl ''request failed'' \<and>
   searchRoute failing_search_env (request_for '''') = ErrorResponse ''ZodError'' \<and>
   searchRoute failing_search_env \<lparr>req_id = ''doc'', req_q = Some ''needle'', req_limit = Absent\<rparr>
     = ErrorResponse ''ZodError'' \<and>
   searchRoute failing_search_env
       \<lparr>req_id = sample_document, req_q = Some ''needle'', req_limit = Given 51\<rparr>
     = ErrorResponse ''ZodError''"
  by code_simp

end
